theory Spec2Isabelle
  imports Complex_Main "HOL-Library.Extended_Nat"
begin

section \<open>The transaction graph of \<open>CryptoGraphAnalyzer\<close>\<close>

text \<open>
  The analyzer of \<^verbatim>\<open>backend/utils/crypto_graph_analyzer.py\<close> keeps a
  \<^verbatim>\<open>networkx.DiGraph\<close> of wallets and a set of illicit wallets.

  \<^item> A wallet is an address string.
  \<^item> Python floats are modelled as \<open>real\<close>: amounts and scores are exact, rounding is
    not modelled. Where the code compares two computed values that are equal as reals,
    the doubles may differ in the last bit and the comparison may go the other way (see
    \<open>similar_count\<close> below); the examples evaluated in this theory have no such tie.
  \<^item> A timestamp (a \<^verbatim>\<open>datetime\<close>) is the number of seconds since midnight of some
    day 0, as a \<open>real\<close>; the difference of two timestamps is their
    \<^verbatim>\<open>total_seconds()\<close>.
  \<^item> The digraph is the list of its edges in the order \<^verbatim>\<open>add_edge\<close> created them,
    each with its attribute dict. The analyzer adds nodes only through
    \<^verbatim>\<open>add_edge\<close>, so the node dict is the end points of the edges in order of
    first appearance. The adjacency dicts \<^verbatim>\<open>_succ[u]\<close> and \<^verbatim>\<open>_pred[v]\<close>
    iterate in the order the edges were created.
  \<^item> The set \<^verbatim>\<open>illicit_wallets\<close> is the list of its members, each once. The code tests
    membership in it and takes a minimum over it, so the order of the list has no
    effect.
  \<^item> An exception is a value \<open>Inl e\<close> of the result; a result \<open>Inr x\<close> is a return.
\<close>

type_synonym wallet = string

record transaction =
  source_wallet :: wallet
  dest_wallet :: wallet
  amount :: real
  timestamp :: real
  token_type :: "string option"

record txn_entry =
  txn_amount :: real
  txn_timestamp :: real
  txn_token_type :: string

record edge_data =
  transactions :: "txn_entry list"
  total_amount :: real
  transaction_count :: int

type_synonym digraph = "((wallet \<times> wallet) \<times> edge_data) list"

record analyzer =
  graph :: digraph
  illicit_wallets :: "wallet list"

datatype exn =
  NetworkXError | NodeNotFound | NetworkXNoPath | NetworkXPointlessConcept
  | PowerIterationFailedConvergence | KeyError

definition init :: analyzer where
  "init = \<lparr>graph = [], illicit_wallets = []\<rparr>"

text \<open>\<^verbatim>\<open>dict.fromkeys(xs)\<close>, \<^verbatim>\<open>set(xs)\<close>: the distinct elements, here in order of
  first occurrence.\<close>

definition fromkeys :: "'a list \<Rightarrow> 'a list" where
  "fromkeys xs = rev (remdups (rev xs))"

definition nodes :: "digraph \<Rightarrow> wallet list" where
  "nodes g = fromkeys (concat (map (\<lambda>((u, v), d). [u, v]) g))"

definition has_node :: "digraph \<Rightarrow> wallet \<Rightarrow> bool" where
  "has_node g n = (n \<in> set (nodes g))"

definition has_edge :: "digraph \<Rightarrow> wallet \<Rightarrow> wallet \<Rightarrow> bool" where
  "has_edge g u v = ((u, v) \<in> set (map fst g))"

text \<open>\<^verbatim>\<open>G[u][v]\<close>: the attribute dict of the edge, \<^verbatim>\<open>KeyError\<close> without one.\<close>

definition edge :: "digraph \<Rightarrow> wallet \<Rightarrow> wallet \<Rightarrow> exn + edge_data" where
  "edge g u v = (case map_of g (u, v) of None \<Rightarrow> Inl KeyError | Some d \<Rightarrow> Inr d)"

text \<open>The in-place update of the attribute dict of an existing edge.\<close>

fun update_edge :: "(edge_data \<Rightarrow> edge_data) \<Rightarrow> wallet \<times> wallet \<Rightarrow> digraph \<Rightarrow> digraph" where
  "update_edge f k [] = []"
| "update_edge f k ((k', d) # g) =
     (if k' = k then (k', f d) # g else (k', d) # update_edge f k g)"

subsection \<open>\<open>load_transactions\<close>, \<open>mark_illicit_wallets\<close>\<close>

definition entry_of :: "transaction \<Rightarrow> txn_entry" where
  "entry_of txn =
     \<lparr>txn_amount = amount txn, txn_timestamp = timestamp txn,
      txn_token_type = (case token_type txn of None \<Rightarrow> ''UNKNOWN'' | Some t \<Rightarrow> t)\<rparr>"

definition load_transaction :: "digraph \<Rightarrow> transaction \<Rightarrow> digraph" where
  "load_transaction g txn =
     (let source = source_wallet txn; dest = dest_wallet txn in
      if has_edge g source dest
      then update_edge
             (\<lambda>d. d\<lparr>transactions := transactions d @ [entry_of txn],
                    total_amount := total_amount d + amount txn,
                    transaction_count := transaction_count d + 1\<rparr>)
             (source, dest) g
      else g @ [((source, dest),
                 \<lparr>transactions = [entry_of txn], total_amount = amount txn,
                  transaction_count = 1\<rparr>)])"

definition load_transactions :: "transaction list \<Rightarrow> analyzer \<Rightarrow> analyzer" where
  "load_transactions txns a = a\<lparr>graph := foldl load_transaction (graph a) txns\<rparr>"

definition mark_illicit_wallets :: "wallet list \<Rightarrow> analyzer \<Rightarrow> analyzer" where
  "mark_illicit_wallets illicit_wallet_list a =
     a\<lparr>illicit_wallets := fromkeys illicit_wallet_list\<rparr>"

subsection \<open>Views of the graph\<close>

text \<open>
  \<^verbatim>\<open>G.nbunch_iter(nbunch)\<close>: a node of the graph stands for itself; any other string is
  read as a sequence of one-character strings, of which the ones that are nodes are kept.
  \<^verbatim>\<open>G.out_edges(w, data=True)\<close> and \<^verbatim>\<open>G.in_edges(w, data=True)\<close> go through it,
  so they answer with no edge for a wallet that is not a node (unless its characters are
  nodes), where \<^verbatim>\<open>successors\<close>, \<^verbatim>\<open>predecessors\<close> and \<^verbatim>\<open>neighbors\<close>
  raise \<^verbatim>\<open>NetworkXError\<close>.
\<close>

definition nbunch_iter :: "digraph \<Rightarrow> wallet \<Rightarrow> wallet list" where
  "nbunch_iter g nbunch =
     (if has_node g nbunch then [nbunch]
      else filter (has_node g) (map (\<lambda>c. [c]) nbunch))"

type_synonym edge_view = "wallet \<times> wallet \<times> edge_data"

definition out_edges :: "digraph \<Rightarrow> wallet \<Rightarrow> edge_view list" where
  "out_edges g nbunch =
     concat (map (\<lambda>n. [(u, v, d). ((u, v), d) \<leftarrow> g, u = n]) (fromkeys (nbunch_iter g nbunch)))"

definition in_edges :: "digraph \<Rightarrow> wallet \<Rightarrow> edge_view list" where
  "in_edges g nbunch =
     concat (map (\<lambda>n. [(u, v, d). ((u, v), d) \<leftarrow> g, v = n]) (fromkeys (nbunch_iter g nbunch)))"

text \<open>The keys of \<^verbatim>\<open>G._succ[n]\<close> and of \<^verbatim>\<open>G._pred[n]\<close>.\<close>

definition succ_keys :: "digraph \<Rightarrow> wallet \<Rightarrow> wallet list" where
  "succ_keys g n = [v. ((u, v), d) \<leftarrow> g, u = n]"

definition pred_keys :: "digraph \<Rightarrow> wallet \<Rightarrow> wallet list" where
  "pred_keys g n = [u. ((u, v), d) \<leftarrow> g, v = n]"

definition successors :: "digraph \<Rightarrow> wallet \<Rightarrow> exn + wallet list" where
  "successors g n = (if has_node g n then Inr (succ_keys g n) else Inl NetworkXError)"

definition predecessors :: "digraph \<Rightarrow> wallet \<Rightarrow> exn + wallet list" where
  "predecessors g n = (if has_node g n then Inr (pred_keys g n) else Inl NetworkXError)"

definition neighbors :: "digraph \<Rightarrow> wallet \<Rightarrow> exn + wallet list" where
  "neighbors g n = successors g n"

subsection \<open>The graph algorithms of the library\<close>

text \<open>
  The analyzer calls \<^verbatim>\<open>networkx\<close> for shortest paths, simple paths, strong
  connectivity and four centralities. Their results are defined here from the library's
  documentation, except betweenness and PageRank, which are parameters
  (\<open>nx_algorithms\<close>): the analyzer only reads one entry of their result, or catches
  their exception.

  \<open>bfs_dist g seen t fuel k\<close>: \<open>seen\<close> holds the nodes at distance at most \<open>k\<close> from
  the source; the search widens it \<open>fuel\<close> times and answers with the first \<open>k\<close> at which
  \<open>t\<close> is seen. A shortest path visits no node twice, so \<open>length (nodes g)\<close> rounds
  find every node that can be reached.
\<close>

fun bfs_dist :: "digraph \<Rightarrow> wallet list \<Rightarrow> wallet \<Rightarrow> nat \<Rightarrow> nat \<Rightarrow> nat option" where
  "bfs_dist g seen t 0 k = (if t \<in> set seen then Some k else None)"
| "bfs_dist g seen t (Suc fuel) k =
     (if t \<in> set seen then Some k
      else bfs_dist g (remdups (seen @ concat (map (succ_keys g) seen))) t fuel (Suc k))"

definition distance :: "digraph \<Rightarrow> wallet \<Rightarrow> wallet \<Rightarrow> nat option" where
  "distance g s t = bfs_dist g [s] t (length (nodes g)) 0"

definition shortest_path_length :: "digraph \<Rightarrow> wallet \<Rightarrow> wallet \<Rightarrow> exn + nat" where
  "shortest_path_length g s t =
     (if \<not> has_node g s \<or> \<not> has_node g t then Inl NodeNotFound
      else case distance g s t of None \<Rightarrow> Inl NetworkXNoPath | Some k \<Rightarrow> Inr k)"

text \<open>\<^verbatim>\<open>nx.has_path\<close> catches \<^verbatim>\<open>NetworkXNoPath\<close> only.\<close>

definition has_path :: "digraph \<Rightarrow> wallet \<Rightarrow> wallet \<Rightarrow> exn + bool" where
  "has_path g s t =
     (case shortest_path_length g s t of
        Inl NetworkXNoPath \<Rightarrow> Inr False
      | Inl e \<Rightarrow> Inl e
      | Inr k \<Rightarrow> Inr True)"

definition is_strongly_connected :: "digraph \<Rightarrow> exn + bool" where
  "is_strongly_connected g =
     (if nodes g = [] then Inl NetworkXPointlessConcept
      else Inr (list_all (\<lambda>u. list_all (\<lambda>v. distance g u v \<noteq> None) (nodes g)) (nodes g)))"

text \<open>
  \<^verbatim>\<open>nx.closeness_centrality(G)\<close> of a digraph uses the distances \<^emph>\<open>to\<close> a node, and
  scales by the share of the nodes that reach it (\<^verbatim>\<open>wf_improved\<close>).
\<close>

definition closeness_centrality :: "digraph \<Rightarrow> wallet \<Rightarrow> real option" where
  "closeness_centrality g n =
     (if \<not> has_node g n then None
      else let sp = List.map_filter (\<lambda>v. distance g v n) (nodes g);
               totsp = sum_list sp;
               len_G = length (nodes g)
           in Some (if totsp > 0 \<and> len_G > 1
                    then ((real (length sp) - 1) / real totsp)
                         * ((real (length sp) - 1) / (real len_G - 1))
                    else 0))"

definition degree_centrality :: "digraph \<Rightarrow> wallet \<Rightarrow> real option" where
  "degree_centrality g n =
     (if \<not> has_node g n then None
      else if length (nodes g) \<le> 1 then Some 1
      else Some (real (length (succ_keys g n) + length (pred_keys g n))
                 * (1 / (real (length (nodes g)) - 1))))"

record nx_algorithms =
  betweenness_centrality :: "digraph \<Rightarrow> exn + (wallet \<Rightarrow> real option)"
  pagerank :: "digraph \<Rightarrow> exn + (wallet \<Rightarrow> real option)"

text \<open>
  \<^verbatim>\<open>nx.all_simple_paths(G, source, target, cutoff)\<close>: the paths from \<open>source\<close> that
  repeat no node, have at most \<open>cutoff\<close> edges and end in a target, in depth-first
  order. The library searches for a set of targets: \<open>target\<close> itself when it is a
  node, and otherwise the members of \<^verbatim>\<open>set(target)\<close>, the one-character strings of
  the string. A path that reaches a target is reported, and the search goes on through a
  node as long as the depth allows and a target is left that is not on the path.
  \<open>visited\<close> is the path so far, last node first. A source that is not a node raises
  \<^verbatim>\<open>NodeNotFound\<close>; a source that is itself a target gives the path of this one node
  (from version 3.2 of the library on; before, it gave no path at all). The analyzer
  passes a target that is a node of the graph other than the source, where the search is
  for this one target and the versions agree.
\<close>

fun simple_paths ::
  "digraph \<Rightarrow> nat \<Rightarrow> wallet list \<Rightarrow> wallet \<Rightarrow> wallet list \<Rightarrow> wallet list list" where
  "simple_paths g 0 visited cur targets = []"
| "simple_paths g (Suc k) visited cur targets =
     concat (map (\<lambda>c. if c \<in> set visited then []
                       else (if c \<in> set targets then [rev (c # visited)] else [])
                          @ (if \<exists>t \<in> set targets. t \<notin> set (c # visited)
                             then simple_paths g k (c # visited) c targets else []))
                 (succ_keys g cur))"

definition all_simple_paths :: "digraph \<Rightarrow> wallet \<Rightarrow> wallet \<Rightarrow> int \<Rightarrow> exn + wallet list list" where
  "all_simple_paths g source target cutoff =
     (if \<not> has_node g source then Inl NodeNotFound
      else let targets = (if has_node g target then [target] else map (\<lambda>c. [c]) target)
           in if cutoff \<ge> 0 \<and> targets \<noteq> []
              then Inr ((if source \<in> set targets then [[source]] else [])
                        @ (if \<exists>t \<in> set targets. t \<noteq> source
                           then simple_paths g (nat cutoff) [source] source targets else []))
              else Inr [])"

text \<open>\<^verbatim>\<open>min(xs)\<close> and \<^verbatim>\<open>max(xs)\<close> of a list; the analyzer calls them on a list it has
  checked to be non-empty (the value for \<open>[]\<close> is never used).\<close>

definition py_min :: "'a::{linorder,zero} list \<Rightarrow> 'a" where
  "py_min xs = (case xs of [] \<Rightarrow> 0 | x # r \<Rightarrow> foldl min x r)"

definition py_max :: "'a::{linorder,zero} list \<Rightarrow> 'a" where
  "py_max xs = (case xs of [] \<Rightarrow> 0 | x # r \<Rightarrow> foldl max x r)"

text \<open>\<^verbatim>\<open>sorted(xs, key=..., reverse=True)\<close> and \<^verbatim>\<open>xs.sort(key=..., reverse=True)\<close>:
  descending by key, equal keys in their original order.\<close>

definition sorted_desc :: "('a \<Rightarrow> real) \<Rightarrow> 'a list \<Rightarrow> 'a list" where
  "sorted_desc key xs = sort_key (\<lambda>x. - key x) xs"

text \<open>\<^verbatim>\<open>d.get(k, default)\<close> of a dict.\<close>

definition get :: "('k \<Rightarrow> 'v option) \<Rightarrow> 'k \<Rightarrow> 'v \<Rightarrow> 'v" where
  "get m k dflt = (case m k of None \<Rightarrow> dflt | Some v \<Rightarrow> v)"

section \<open>The analyses\<close>

subsection \<open>\<open>_distance_to_illicit_wallets\<close>\<close>

text \<open>
  One \<^verbatim>\<open>if nx.has_path(G, s, t): min_distance = min(min_distance, ...)\<close> of the loop
  body. An exception leaves the body (\<^verbatim>\<open>except: continue\<close>) with what
  \<open>min_distance\<close> holds then. \<^verbatim>\<open>float("inf")\<close> is \<open>\<infinity>\<close>.
\<close>

definition closer :: "digraph \<Rightarrow> wallet \<Rightarrow> wallet \<Rightarrow> enat \<Rightarrow> exn + enat" where
  "closer g s t min_distance =
     (case has_path g s t of
        Inl e \<Rightarrow> Inl e
      | Inr False \<Rightarrow> Inr min_distance
      | Inr True \<Rightarrow>
          (case shortest_path_length g s t of
             Inl e \<Rightarrow> Inl e
           | Inr d \<Rightarrow> Inr (min min_distance (enat d))))"

definition distance_step :: "digraph \<Rightarrow> wallet \<Rightarrow> enat \<Rightarrow> wallet \<Rightarrow> enat" where
  "distance_step g wallet min_distance illicit =
     (case closer g wallet illicit min_distance of
        Inl e \<Rightarrow> min_distance
      | Inr m1 \<Rightarrow> (case closer g illicit wallet m1 of Inl e \<Rightarrow> m1 | Inr m2 \<Rightarrow> m2))"

definition distance_to_illicit_wallets :: "analyzer \<Rightarrow> wallet \<Rightarrow> int" where
  "distance_to_illicit_wallets a wallet =
     (if wallet \<in> set (illicit_wallets a) then 0
      else let min_distance = foldl (distance_step (graph a) wallet) \<infinity> (illicit_wallets a)
           in if min_distance \<noteq> \<infinity> then int (the_enat min_distance) else - 1)"

subsection \<open>\<open>calculate_wallet_centrality\<close>\<close>

record centrality =
  degree :: real
  betweenness :: real
  pagerank_score :: real
  closeness :: real

definition zero_centrality :: centrality where
  "zero_centrality = \<lparr>degree = 0, betweenness = 0, pagerank_score = 0, closeness = 0\<rparr>"

text \<open>The bare \<^verbatim>\<open>except:\<close> answers every exception of the four steps with the
  all-zero dict.\<close>

definition calculate_wallet_centrality :: "nx_algorithms \<Rightarrow> analyzer \<Rightarrow> wallet \<Rightarrow> centrality" where
  "calculate_wallet_centrality nx a wallet =
     (let g = graph a in
      case betweenness_centrality nx g of
        Inl e \<Rightarrow> zero_centrality
      | Inr bc \<Rightarrow>
      (case pagerank nx g of
        Inl e \<Rightarrow> zero_centrality
      | Inr pr \<Rightarrow>
      (case is_strongly_connected g of
        Inl e \<Rightarrow> zero_centrality
      | Inr strongly \<Rightarrow>
          \<lparr>degree = get (degree_centrality g) wallet 0,
           betweenness = get bc wallet 0,
           pagerank_score = get pr wallet 0,
           closeness = (if strongly then get (closeness_centrality g) wallet 0 else 0)\<rparr>)))"

subsection \<open>\<open>_analyze_transaction_patterns\<close>\<close>

definition illicit_sources :: "analyzer \<Rightarrow> edge_view list \<Rightarrow> wallet list" where
  "illicit_sources a edges = [src. (src, dst, d) \<leftarrow> edges, src \<in> set (illicit_wallets a)]"

definition sum_total_amount :: "edge_view list \<Rightarrow> real" where
  "sum_total_amount edges = sum_list [total_amount d. (u, v, d) \<leftarrow> edges]"

definition analyze_transaction_patterns :: "analyzer \<Rightarrow> wallet \<Rightarrow> real" where
  "analyze_transaction_patterns a wallet =
     (let outs = out_edges (graph a) wallet;
          ins = in_edges (graph a) wallet;
          total_received = sum_total_amount ins;
          total_sent = sum_total_amount outs;
          smurfing =
            (if length ins > 0 \<and> length outs \<ge> 5
             then if illicit_sources a ins \<noteq> [] then 0.8
                  else if total_received > total_sent * 0.8
                  then let avg_out = (if outs \<noteq> [] then total_sent / real (length outs) else 0)
                       in if avg_out < total_received / 10 then 0.6 else 0
                  else 0
             else 0);
          fan_out = (if length outs > 10 then 0.3 else if length outs > 5 then 0.15 else 0);
          fan_in = (if length ins > 10 then 0.3 else if length ins > 5 then 0.15 else 0);
          round_trip =
            (if list_ex (\<lambda>(u, dest, d). has_edge (graph a) dest wallet) outs then 0.2 else 0)
      in min (0 + smurfing + fan_out + fan_in + round_trip) 1)"

subsection \<open>\<open>calculate_suspicion_score\<close>\<close>

text \<open>\<^verbatim>\<open>sum(self.graph[src][wallet]["total_amount"] for src in illicit_sources)\<close>: a
  \<^verbatim>\<open>KeyError\<close> where \<open>src\<close> has no edge to \<open>wallet\<close>.\<close>

fun total_from :: "digraph \<Rightarrow> wallet list \<Rightarrow> wallet \<Rightarrow> exn + real" where
  "total_from g [] wallet = Inr 0"
| "total_from g (src # srcs) wallet =
     (case edge g src wallet of
        Inl e \<Rightarrow> Inl e
      | Inr d \<Rightarrow> (case total_from g srcs wallet of
                    Inl e \<Rightarrow> Inl e
                  | Inr s \<Rightarrow> Inr (total_amount d + s)))"

text \<open>The local \<open>illicit_connection_score\<close> of \<open>calculate_suspicion_score\<close>.\<close>

definition illicit_connection_score :: "analyzer \<Rightarrow> wallet \<Rightarrow> exn + real" where
  "illicit_connection_score a wallet =
     (let illicit_distance = distance_to_illicit_wallets a wallet in
      if illicit_distance = 0 then Inr 1.0
      else if illicit_distance = 1
      then let srcs = illicit_sources a (in_edges (graph a) wallet) in
           if srcs \<noteq> []
           then (case total_from (graph a) srcs wallet of
                   Inl e \<Rightarrow> Inl e
                 | Inr total_from_illicit \<Rightarrow>
                     Inr (if total_from_illicit > 100 then 0.9 else 0.7))
           else Inr 0.5
      else if illicit_distance = 2 then Inr 0.3
      else if illicit_distance \<le> 3 then Inr 0.15
      else Inr 0.0)"

definition centrality_score :: "centrality \<Rightarrow> real" where
  "centrality_score c = degree c * 0.3 + betweenness c * 0.4 + pagerank_score c * 0.3"

definition calculate_suspicion_score :: "nx_algorithms \<Rightarrow> analyzer \<Rightarrow> wallet \<Rightarrow> exn + real" where
  "calculate_suspicion_score nx a wallet =
     (case illicit_connection_score a wallet of
        Inl e \<Rightarrow> Inl e
      | Inr connection \<Rightarrow>
          Inr (min (0.0 + connection * 0.5
                    + centrality_score (calculate_wallet_centrality nx a wallet) * 0.2
                    + analyze_transaction_patterns a wallet * 0.3) 1.0))"

subsection \<open>\<open>calculate_suspicion_breakdown\<close>\<close>

text \<open>
  The breakdown dict, flattened: each component's score with the numbers of its
  \<open>details\<close>. A description that only formats a number of its details is left out; the
  description of the illicit proximity is kept as \<open>proximity_description\<close>.
\<close>

datatype proximity_description =
  NoConnection | KnownIllicit | DirectTransferFrom real | DirectTransferTo | TwoHops | ThreeHops

record suspicion_breakdown =
  total_suspicion_score :: real
  fan_out_score :: real
  destination_count :: nat
  fan_in_score :: real
  source_count :: nat
  temporal_burst_score :: real
  burst_transaction_count :: nat
  time_span_hours :: real
  path_similarity_score :: real
  illicit_proximity_score :: real
  distance_to_illicit :: int
  proximity :: proximity_description

definition edge_timestamps :: "edge_view list \<Rightarrow> real list" where
  "edge_timestamps edges = concat [map txn_timestamp (transactions d). (u, v, d) \<leftarrow> edges]"

text \<open>
  The amounts within 20% of their average,
  \<^verbatim>\<open>sum(1 for amt in amounts if abs(amt - avg_amount) < avg_amount * 0.2)\<close>. The
  comparison is strict, and here it is a comparison of reals: an amount exactly 20% away
  from the average is not counted. In doubles such a tie is decided by rounding; for the
  amounts 4, 4, 4, 4, 3, 1 the code counts the four amounts 4 (and 3), where this
  definition counts only 3.
\<close>

definition similar_count :: "real list \<Rightarrow> nat" where
  "similar_count amounts =
     (let avg_amount = sum_list amounts / real (length amounts)
      in length [amt \<leftarrow> amounts. \<bar>amt - avg_amount\<bar> < avg_amount * 0.2])"

text \<open>Component 1: the fan-out score, from the number of out-edges.\<close>

definition fan_out_component :: "nat \<Rightarrow> real" where
  "fan_out_component fan_out_count =
     (if fan_out_count \<ge> 20 then 0.35 else if fan_out_count \<ge> 10 then 0.25
      else if fan_out_count \<ge> 5 then 0.15 else 0.0)"

text \<open>Component 2: the fan-in score, from the number of in-edges.\<close>

definition fan_in_component :: "nat \<Rightarrow> real" where
  "fan_in_component fan_in_count =
     (if fan_in_count \<ge> 20 then 0.28 else if fan_in_count \<ge> 10 then 0.20
      else if fan_in_count \<ge> 5 then 0.12 else 0.0)"

text \<open>Component 3: the temporal burst score and \<open>time_span_hours\<close>, from the
  timestamps of all transactions of the wallet.\<close>

definition temporal_burst_component :: "real list \<Rightarrow> real \<times> real" where
  "temporal_burst_component all_timestamps =
     (if length all_timestamps > 0
      then let time_span = (py_max all_timestamps - py_min all_timestamps) / 3600;
               txn_count = length all_timestamps
           in (if time_span < 24 \<and> txn_count > 10 then 0.17
               else if time_span < 48 \<and> txn_count > 15 then 0.12
               else if time_span < 168 \<and> txn_count > 25 then 0.08 else 0.0,
               time_span)
      else (0.0, 0))"

text \<open>Component 4: the path similarity score, from the totals of the out-edges.\<close>

definition path_similarity_component :: "edge_view list \<Rightarrow> real" where
  "path_similarity_component outs =
     (if outs \<noteq> []
      then let amounts = [total_amount d. (u, v, d) \<leftarrow> outs];
               similarity_ratio =
                 (if amounts \<noteq> []
                  then real (similar_count amounts) / real (length amounts) else 0)
           in if similarity_ratio > 0.7 \<and> length amounts \<ge> 5 then 0.10
              else if similarity_ratio > 0.5 \<and> length amounts \<ge> 5 then 0.06 else 0.0
      else 0.0)"

text \<open>Component 5: the illicit proximity score and its description.\<close>

definition illicit_proximity_component ::
  "analyzer \<Rightarrow> wallet \<Rightarrow> edge_view list \<Rightarrow> exn + real \<times> proximity_description" where
  "illicit_proximity_component a wallet ins =
     (let illicit_distance = distance_to_illicit_wallets a wallet in
      if illicit_distance = 0 then Inr (0.50, KnownIllicit)
      else if illicit_distance = 1
      then let srcs = illicit_sources a ins in
           if srcs \<noteq> []
           then (case total_from (graph a) srcs wallet of
                   Inl e \<Rightarrow> Inl e
                 | Inr total_from_illicit \<Rightarrow>
                     Inr (if total_from_illicit > 100 then 0.35 else 0.25,
                          DirectTransferFrom total_from_illicit))
           else Inr (0.20, DirectTransferTo)
      else if illicit_distance = 2 then Inr (0.10, TwoHops)
      else if illicit_distance = 3 then Inr (0.05, ThreeHops)
      else Inr (0.0, NoConnection))"

definition calculate_suspicion_breakdown :: "analyzer \<Rightarrow> wallet \<Rightarrow> exn + suspicion_breakdown" where
  "calculate_suspicion_breakdown a wallet =
     (let outs = out_edges (graph a) wallet;
          fan_out = fan_out_component (length outs);
          ins = in_edges (graph a) wallet;
          fan_in = fan_in_component (length ins);
          all_timestamps = edge_timestamps (ins @ outs);
          (temporal, time_span) = temporal_burst_component all_timestamps;
          path_similarity = path_similarity_component outs
      in case illicit_proximity_component a wallet ins of
           Inl e \<Rightarrow> Inl e
         | Inr (illicit_proximity, description) \<Rightarrow>
             Inr \<lparr>total_suspicion_score =
                    min (fan_out + fan_in + temporal + path_similarity + illicit_proximity) 1.0,
                  fan_out_score = fan_out, destination_count = length outs,
                  fan_in_score = fan_in, source_count = length ins,
                  temporal_burst_score = temporal,
                  burst_transaction_count = length all_timestamps,
                  time_span_hours = time_span,
                  path_similarity_score = path_similarity,
                  illicit_proximity_score = illicit_proximity,
                  distance_to_illicit = distance_to_illicit_wallets a wallet,
                  proximity = description\<rparr>)"

subsection \<open>\<open>_analyze_pattern\<close> and \<open>detect_fan_out_fan_in\<close>\<close>

record pattern_info =
  info_suspicion_score :: real
  info_total_amount :: real
  info_transaction_count :: int
  info_path_length :: nat
  info_time_span_hours :: real

text \<open>The loop over the edges of the path: the totals and \<open>time_span\<close>
  (\<open>None\<close>, or the earliest and the latest timestamp so far).\<close>

fun analyze_edges ::
  "digraph \<Rightarrow> wallet list \<Rightarrow> real \<times> int \<times> (real \<times> real) option
   \<Rightarrow> exn + real \<times> int \<times> (real \<times> real) option" where
  "analyze_edges g (u # v # path) (tot, cnt, time_span) =
     (case edge g u v of
        Inl e \<Rightarrow> Inl e
      | Inr edge_data \<Rightarrow>
          (let timestamps = map txn_timestamp (transactions edge_data) in
           analyze_edges g (v # path)
             (tot + total_amount edge_data, cnt + transaction_count edge_data,
              if timestamps \<noteq> []
              then (case time_span of
                      None \<Rightarrow> Some (py_min timestamps, py_max timestamps)
                    | Some (lo, hi) \<Rightarrow>
                        Some (min lo (py_min timestamps), max hi (py_max timestamps)))
              else time_span)))"
| "analyze_edges g path state = Inr state"

definition analyze_pattern :: "analyzer \<Rightarrow> wallet list \<Rightarrow> exn + pattern_info" where
  "analyze_pattern a path =
     (case analyze_edges (graph a) path (0, 0, None) of
        Inl e \<Rightarrow> Inl e
      | Inr (tot, cnt, time_span) \<Rightarrow>
          (let s1 = (if length path \<ge> 5 then 0.3 else if length path \<ge> 3 then 0.2 else 0);
               s2 = (if tot > 10000 \<and> length path \<ge> 3 then 0.3 else 0);
               s3 = (if cnt > 20 then 0.2 else 0);
               duration = (case time_span of None \<Rightarrow> 0 | Some (lo, hi) \<Rightarrow> (hi - lo) / 3600);
               s4 = (if time_span \<noteq> None \<and> duration < 24 then 0.2 else 0)
           in Inr \<lparr>info_suspicion_score = min (0.0 + s1 + s2 + s3 + s4) 1.0,
                   info_total_amount = tot,
                   info_transaction_count = cnt,
                   info_path_length = length path,
                   info_time_span_hours = duration\<rparr>))"

text \<open>
  A detected pattern. The direct pattern has the keys \<open>intermediary\<close>, \<open>destinations\<close>
  and \<open>fan_out_count\<close>, the multi-hop pattern has \<open>destination\<close>; a key a dict does
  not have is \<open>None\<close>. The value of \<open>intermediaries\<close> is a Python list, but the
  multi-hop pattern builds it with \<^verbatim>\<open>list(set(path[1:-1]))\<close>, whose order is the iteration
  order of a set of strings: the language does not fix it, and it changes from one run
  of the interpreter to the next. The field is therefore the set of the members, which is
  all the code determines; the direct pattern's one-element list \<^verbatim>\<open>[wallet]\<close> is the
  set \<open>{wallet}\<close>.
\<close>

record smurfing_pattern =
  source :: wallet
  intermediary :: "wallet option"
  destinations :: "wallet list option"
  destination :: "wallet option"
  pattern_path :: "wallet list"
  intermediaries :: "wallet set"
  suspicion_score :: real
  pattern_type :: string
  metrics_total_amount :: real
  metrics_transaction_count :: int
  metrics_path_length :: nat
  metrics_fan_out_count :: "nat option"
  metrics_time_span_hours :: real

text \<open>\<^verbatim>\<open>for txn in self.graph[src][wallet]["transactions"]\<close>, for each illicit source.\<close>

fun source_timestamps :: "digraph \<Rightarrow> wallet list \<Rightarrow> wallet \<Rightarrow> exn + real list" where
  "source_timestamps g [] wallet = Inr []"
| "source_timestamps g (src # srcs) wallet =
     (case edge g src wallet of
        Inl e \<Rightarrow> Inl e
      | Inr d \<Rightarrow> (case source_timestamps g srcs wallet of
                    Inl e \<Rightarrow> Inl e
                  | Inr ts \<Rightarrow> Inr (map txn_timestamp (transactions d) @ ts)))"

text \<open>The first part: the direct fan-out from an illicit source.\<close>

definition direct_smurfing :: "analyzer \<Rightarrow> wallet \<Rightarrow> exn + smurfing_pattern list" where
  "direct_smurfing a wallet =
     (let ins = in_edges (graph a) wallet;
          outs = out_edges (graph a) wallet;
          srcs = illicit_sources a ins
      in if length ins > 0 \<and> length outs \<ge> 5 \<and> srcs \<noteq> []
         then (case total_from (graph a) srcs wallet of
                 Inl e \<Rightarrow> Inl e
               | Inr total_received \<Rightarrow>
             (case source_timestamps (graph a) srcs wallet of
                 Inl e \<Rightarrow> Inl e
               | Inr ts \<Rightarrow>
                   (let dests = [dest. (u, dest, d) \<leftarrow> outs];
                        all_timestamps = ts @ edge_timestamps outs;
                        time_span =
                          (if all_timestamps \<noteq> []
                           then (py_max all_timestamps - py_min all_timestamps) / 3600 else 0)
                    in Inr [\<lparr>source = hd srcs,
                             intermediary = Some wallet,
                             destinations = Some dests,
                             destination = None,
                             pattern_path = [hd srcs, wallet] @ dests,
                             intermediaries = {wallet},
                             suspicion_score = (if length outs > 10 then 0.95 else 0.9),
                             pattern_type = ''direct_smurfing_from_illicit'',
                             metrics_total_amount = total_received,
                             metrics_transaction_count =
                               sum_list [transaction_count d. (u, v, d) \<leftarrow> outs],
                             metrics_path_length = 2,
                             metrics_fan_out_count = Some (length outs),
                             metrics_time_span_hours = time_span\<rparr>])))
         else Inr [])"

text \<open>The second part, for one target: the paths of \<open>all_simple_paths\<close> that qualify.
  \<^verbatim>\<open>len(intermediaries)\<close> is the number of distinct members of \<^verbatim>\<open>path[1:-1]\<close>, the
  length of \<open>fromkeys\<close> of it.\<close>

fun multi_hop_paths ::
  "analyzer \<Rightarrow> wallet \<Rightarrow> wallet \<Rightarrow> int \<Rightarrow> wallet list list \<Rightarrow> exn + smurfing_pattern list" where
  "multi_hop_paths a wallet target min_intermediaries [] = Inr []"
| "multi_hop_paths a wallet target min_intermediaries (p # paths) =
     (if length p < 3 then multi_hop_paths a wallet target min_intermediaries paths
      else let inter = fromkeys (butlast (tl p)) in
        if int (length inter) \<ge> min_intermediaries
        then (case analyze_pattern a p of
                Inl e \<Rightarrow> Inl e
              | Inr info \<Rightarrow>
                  (case multi_hop_paths a wallet target min_intermediaries paths of
                     Inl e \<Rightarrow> Inl e
                   | Inr rest \<Rightarrow>
                       Inr ((if info_suspicion_score info > 0.5
                             then [\<lparr>source = wallet,
                                    intermediary = None,
                                    destinations = None,
                                    destination = Some target,
                                    pattern_path = p,
                                    intermediaries = set inter,
                                    suspicion_score = info_suspicion_score info,
                                    pattern_type = ''multi_hop_smurfing'',
                                    metrics_total_amount = info_total_amount info,
                                    metrics_transaction_count = info_transaction_count info,
                                    metrics_path_length = info_path_length info,
                                    metrics_fan_out_count = None,
                                    metrics_time_span_hours = info_time_span_hours info\<rparr>]
                             else []) @ rest)))
        else multi_hop_paths a wallet target min_intermediaries paths)"

text \<open>The loop over the targets; \<^verbatim>\<open>except: continue\<close> skips a target whose path search
  raises.\<close>

fun multi_hop_smurfing ::
  "analyzer \<Rightarrow> wallet \<Rightarrow> int \<Rightarrow> int \<Rightarrow> wallet list \<Rightarrow> exn + smurfing_pattern list" where
  "multi_hop_smurfing a wallet max_depth min_intermediaries [] = Inr []"
| "multi_hop_smurfing a wallet max_depth min_intermediaries (target # targets) =
     (if target = wallet then multi_hop_smurfing a wallet max_depth min_intermediaries targets
      else case all_simple_paths (graph a) wallet target max_depth of
        Inl e \<Rightarrow> multi_hop_smurfing a wallet max_depth min_intermediaries targets
      | Inr paths \<Rightarrow>
          (case multi_hop_paths a wallet target min_intermediaries paths of
             Inl e \<Rightarrow> Inl e
           | Inr found \<Rightarrow>
               (case multi_hop_smurfing a wallet max_depth min_intermediaries targets of
                  Inl e \<Rightarrow> Inl e
                | Inr rest \<Rightarrow> Inr (found @ rest))))"

definition detect_fan_out_fan_in ::
  "analyzer \<Rightarrow> wallet \<Rightarrow> int \<Rightarrow> int \<Rightarrow> exn + smurfing_pattern list" where
  "detect_fan_out_fan_in a wallet max_depth min_intermediaries =
     (case direct_smurfing a wallet of
        Inl e \<Rightarrow> Inl e
      | Inr direct \<Rightarrow>
          (case multi_hop_smurfing a wallet max_depth min_intermediaries (nodes (graph a)) of
             Inl e \<Rightarrow> Inl e
           | Inr multi \<Rightarrow> Inr (sorted_desc suspicion_score (direct @ multi))))"

subsection \<open>\<open>detect_peeling_chain\<close>\<close>

definition is_peeling_pattern :: "real list \<Rightarrow> bool" where
  "is_peeling_pattern amounts =
     (if length amounts < 3 then False
      else let decreasing_count =
                 foldl (\<lambda>c i. if amounts ! i < amounts ! (i - 1) * 0.95 then c + 1 else c)
                   (0::nat) [1..<length amounts]
           in real decreasing_count \<ge> real (length amounts) * 0.7)"

definition calculate_peeling_score :: "real list \<Rightarrow> real" where
  "calculate_peeling_score amounts =
     (if amounts = [] then 0.0
      else let s1 = (if length amounts \<ge> 10 then 0.4 else if length amounts \<ge> 5 then 0.2 else 0);
               peel_percentage =
                 (if hd amounts > 0 then (hd amounts - last amounts) / hd amounts else 0);
               s2 = (if 0.1 < peel_percentage \<and> peel_percentage < 0.5 then 0.3 else 0);
               s3 = (if hd amounts > 10000 then 0.3 else 0)
           in min (0.0 + s1 + s2 + s3) 1.0)"

record peeling_chain =
  chain_source :: wallet
  chain :: "wallet list"
  chain_amounts :: "real list"
  total_peeled :: real
  chain_suspicion_score :: real

type_synonym queue_entry = "wallet \<times> wallet list \<times> real list"

text \<open>
  The \<^verbatim>\<open>while queue:\<close> loop, with the set \<open>visited\<close>, the queue and the chains found
  so far. \<^verbatim>\<open>self.graph.neighbors(current)\<close> raises for a wallet that is not a node;
  for a node, the loop over the neighbours reads \<^verbatim>\<open>self.graph[current][neighbor]\<close>, the
  attribute dict of the edge that makes \<open>neighbor\<close> a neighbour.
\<close>

function peeling_loop ::
  "digraph \<Rightarrow> wallet \<Rightarrow> int \<Rightarrow> wallet set \<Rightarrow> queue_entry list \<Rightarrow> peeling_chain list
   \<Rightarrow> exn + peeling_chain list" where
  "peeling_loop g wallet min_hops visited [] found = Inr found"
| "peeling_loop g wallet min_hops visited ((current, path, amounts) # queue) found =
     (if current \<in> visited \<and> length path > 1
      then peeling_loop g wallet min_hops visited queue found
      else if \<not> has_node g current then Inl NetworkXError
      else peeling_loop g wallet min_hops (insert current visited)
             (queue @ [(neighbor, path @ [neighbor], amounts @ [total_amount d]).
                        ((u, neighbor), d) \<leftarrow> g, u = current, neighbor \<notin> set path])
             (if int (length path) \<ge> min_hops \<and> is_peeling_pattern amounts
              then found @ [\<lparr>chain_source = wallet, chain = path, chain_amounts = amounts,
                              total_peeled =
                                (if amounts \<noteq> [] then sum_list amounts - last amounts else 0),
                              chain_suspicion_score = calculate_peeling_score amounts\<rparr>]
              else found))"
  by pat_completeness auto
termination
proof (relation
    "measures
      [\<lambda>(g, wallet, min_hops, visited, queue, found). card (set (nodes g) - visited),
       \<lambda>(g, wallet, min_hops, visited, queue, found).
          length (filter (\<lambda>(c, p, am). length p = 0) queue),
       \<lambda>(g, wallet, min_hops, visited, queue, found).
          length (filter (\<lambda>(c, p, am). length p \<le> 1) queue),
       \<lambda>(g, wallet, min_hops, visited, queue, found). length queue]",
    goal_cases)
  case 1
  show ?case by simp
next
  case (2 g wallet min_hops visited current path amounts queue found)
  then show ?case by auto
next
  case (3 g wallet min_hops visited current path amounts queue found)
  let ?new = "[(neighbor, path @ [neighbor], amounts @ [total_amount d]).
                 ((u, neighbor), d) \<leftarrow> g, u = current, neighbor \<notin> set path]"
  have node: "current \<in> set (nodes g)"
    using 3 by (simp add: has_node_def)
  show ?case
  proof (cases "current \<in> visited")
    case False
    have "set (nodes g) - insert current visited \<subset> set (nodes g) - visited"
      using node False by auto
    then have "card (set (nodes g) - insert current visited) < card (set (nodes g) - visited)"
      by (intro psubset_card_mono) auto
    then show ?thesis by simp
  next
    case True
    then have short: "length path \<le> 1" using 3 by auto
    have same: "insert current visited = visited" using True by auto
    have no_empty: "filter (\<lambda>(c, p, am). length p = 0) ?new = []"
      by (auto simp: filter_empty_conv)
    show ?thesis
    proof (cases "path = []")
      case True
      then show ?thesis by (simp add: same no_empty)
    next
      case False
      then have one: "length path = 1" using short by (cases path) auto
      have no_short: "filter (\<lambda>(c, p, am). length p \<le> 1) ?new = []"
        using one by (auto simp: filter_empty_conv)
      show ?thesis using one False by (simp add: same no_empty no_short)
    qed
  qed
qed

definition detect_peeling_chain :: "analyzer \<Rightarrow> wallet \<Rightarrow> int \<Rightarrow> exn + peeling_chain list" where
  "detect_peeling_chain a wallet min_hops =
     (case peeling_loop (graph a) wallet min_hops {} [(wallet, [wallet], [])] [] of
        Inl e \<Rightarrow> Inl e
      | Inr found \<Rightarrow> Inr (sorted_desc chain_suspicion_score found))"

subsection \<open>The four detectors and \<open>classify_laundering_pattern\<close>\<close>

text \<open>
  An evidence string is a constructor with the numbers its f-string formats.
  A result dict is a \<open>pattern\<close>; \<open>component_patterns = []\<close> stands for a dict without
  that key (the code never stores an empty list there).
\<close>

datatype message =
  HighFanOut nat | ModerateFanOut nat | Reaggregation nat nat | CollectionPoint nat nat
  | StructuredAmounts nat nat | DirectConnection nat
  | LongChain nat | MediumChain nat | SequentialPeeling | LinearProgression nat
  | DirectRoundTrips nat | TwoHopCycle wallet | RepetitiveTransactions real
  | RapidLayering nat real | AutomatedTiming real | OffHoursActivity nat nat

datatype pattern =
  Pattern (kind: string) (confidence: real) (subtype: string) (evidence: "message list")
    (component_patterns: "pattern list")

definition detect_fan_out_fan_in_pattern ::
  "analyzer \<Rightarrow> wallet \<Rightarrow> edge_view list \<Rightarrow> edge_view list \<Rightarrow> pattern" where
  "detect_fan_out_fan_in_pattern a wallet ins outs =
     (let in_count = length ins;
          out_count = length outs;
          (c1, e1) =
            (if out_count \<ge> 10 then (0.5, [HighFanOut out_count])
             else if out_count \<ge> 5 then (0.3, [ModerateFanOut out_count])
             else (0, []));
          (c2, sub, e2) =
            (if in_count \<ge> 5 \<and> out_count \<ge> 5
             then (0.3, ''MULTI_LAYER_REAGGREGATION'', [Reaggregation in_count out_count])
             else if in_count \<ge> 3 \<and> out_count \<ge> 5
             then (0.2, ''COLLECTION_REDISTRIBUTION'', [CollectionPoint in_count out_count])
             else (0, ''SIMPLE_FAN_OUT'', []));
          amounts = [total_amount d. (u, v, d) \<leftarrow> outs];
          (c3, e3) =
            (if outs \<noteq> [] \<and> real (similar_count amounts) / real (length amounts) > 0.7
             then (0.2, [StructuredAmounts (similar_count amounts) (length amounts)])
             else (0, []));
          srcs = illicit_sources a ins;
          (c4, e4) = (if srcs \<noteq> [] then (0.3, [DirectConnection (length srcs)]) else (0, []))
      in Pattern ''FAN_OUT_FAN_IN'' (min (0.0 + c1 + c2 + c3 + c4) 1.0) sub
           (e1 @ e2 @ e3 @ e4) [])"

text \<open>The local function \<open>find_chain_length\<close> of \<open>_detect_peeling_pattern\<close>.\<close>

function find_chain_length :: "digraph \<Rightarrow> wallet \<Rightarrow> nat \<Rightarrow> nat \<Rightarrow> exn + nat" where
  "find_chain_length g current depth max_depth =
     (if depth \<ge> max_depth then Inr depth
      else case successors g current of
        Inl e \<Rightarrow> Inl e
      | Inr [s] \<Rightarrow> find_chain_length g s (depth + 1) max_depth
      | Inr others \<Rightarrow> Inr depth)"
  by pat_completeness auto
termination
  by (relation "measure (\<lambda>(g, current, depth, max_depth). max_depth - depth)") auto

text \<open>The loop that collects the positive chain lengths.\<close>

fun chain_lengths :: "digraph \<Rightarrow> edge_view list \<Rightarrow> exn + nat list" where
  "chain_lengths g [] = Inr []"
| "chain_lengths g ((u, dest, d) # outs) =
     (case find_chain_length g dest 0 10 of
        Inl e \<Rightarrow> Inl e
      | Inr chain_length \<Rightarrow>
          (case chain_lengths g outs of
             Inl e \<Rightarrow> Inl e
           | Inr rest \<Rightarrow> Inr ((if chain_length > 0 then [chain_length] else []) @ rest)))"

definition detect_peeling_pattern :: "analyzer \<Rightarrow> wallet \<Rightarrow> edge_view list \<Rightarrow> exn + pattern" where
  "detect_peeling_pattern a wallet outs =
     (if outs = [] then Inr (Pattern ''PEELING_CHAIN'' 0.0 ''NONE'' [] [])
      else case chain_lengths (graph a) outs of
        Inl e \<Rightarrow> Inl e
      | Inr lengths \<Rightarrow>
          (let max_chain = py_max lengths;
               (c1, e1) =
                 (if lengths \<noteq> [] \<and> max_chain \<ge> 5 then (0.6, [LongChain max_chain])
                  else if lengths \<noteq> [] \<and> max_chain \<ge> 3 then (0.3, [MediumChain max_chain])
                  else (0, []));
               amounts = rev (sort [total_amount d. (u, v, d) \<leftarrow> outs]);
               decreasing =
                 list_all (\<lambda>i. amounts ! i > amounts ! (i + 1) * 1.1) [0..<length amounts - 1];
               (c2, e2) =
                 (if lengths \<noteq> [] \<and> length outs \<le> 3 \<and> length amounts \<ge> 2 \<and> decreasing
                  then (0.3, [SequentialPeeling]) else (0, []));
               (c3, e3) =
                 (if length outs \<le> 2 then (0.2, [LinearProgression (length outs)]) else (0, []));
               conf = 0.0 + c1 + c2 + c3
           in Inr (Pattern ''PEELING_CHAIN'' (min conf 1.0)
                     (if conf > 0.5 then ''SEQUENTIAL_PEELING'' else ''LINEAR_PROGRESSION'')
                     (e1 @ e2 @ e3) [])))"

text \<open>The loop for a 2-hop cycle: the first neighbour that has \<open>wallet\<close> among its
  successors.\<close>

fun second_hop :: "digraph \<Rightarrow> wallet \<Rightarrow> wallet list \<Rightarrow> exn + wallet option" where
  "second_hop g wallet [] = Inr None"
| "second_hop g wallet (neighbor # rest) =
     (case successors g neighbor of
        Inl e \<Rightarrow> Inl e
      | Inr hop \<Rightarrow> if wallet \<in> set hop then Inr (Some neighbor) else second_hop g wallet rest)"

definition detect_cyclic_pattern :: "analyzer \<Rightarrow> wallet \<Rightarrow> exn + pattern" where
  "detect_cyclic_pattern a wallet =
     (case successors (graph a) wallet of
        Inl e \<Rightarrow> Inl e
      | Inr out_neighbors \<Rightarrow>
     (case predecessors (graph a) wallet of
        Inl e \<Rightarrow> Inl e
      | Inr in_neighbors \<Rightarrow>
     (case second_hop (graph a) wallet out_neighbors of
        Inl e \<Rightarrow> Inl e
      | Inr through \<Rightarrow>
          (let round_trips = [n \<leftarrow> fromkeys out_neighbors. n \<in> set in_neighbors];
               (c1, n1, e1) =
                 (if round_trips \<noteq> []
                  then (0.4, length round_trips, [DirectRoundTrips (length round_trips)])
                  else (0, 0, []));
               (c2, n2, e2) =
                 (case through of
                    Some neighbor \<Rightarrow> (0.3, 1, [TwoHopCycle neighbor])
                  | None \<Rightarrow> (0, 0, []));
               dests = [dest. (u, dest, d) \<leftarrow> out_edges (graph a) wallet];
               repeat_ratio = 1 - real (length (fromkeys dests)) / real (length dests);
               (c3, e3) =
                 (if dests \<noteq> [] \<and> repeat_ratio > 0.5
                  then (0.3, [RepetitiveTransactions repeat_ratio]) else (0, []));
               cycles_found = n1 + n2
           in Inr (Pattern ''CYCLIC_WASH'' (min (0.0 + c1 + c2 + c3) 1.0)
                     (if cycles_found > (0::nat) then ''CIRCULAR_WASH'' else ''REPETITIVE_PATTERN'')
                     (e1 @ e2 @ e3) [])))))"

text \<open>\<^verbatim>\<open>ts.hour\<close> of a timestamp.\<close>

definition hour :: "real \<Rightarrow> int" where
  "hour ts = \<lfloor>ts / 3600\<rfloor> mod 24"

definition detect_temporal_layering ::
  "analyzer \<Rightarrow> wallet \<Rightarrow> edge_view list \<Rightarrow> edge_view list \<Rightarrow> pattern" where
  "detect_temporal_layering a wallet ins outs =
     (let all_timestamps = edge_timestamps (ins @ outs) in
      if length all_timestamps < 5
      then Pattern ''TEMPORAL_LAYERING'' 0.0 ''INSUFFICIENT_DATA'' [] []
      else let ts = sort all_timestamps;
               time_deltas = map (\<lambda>i. ts ! i - ts ! (i - 1)) [1..<length ts]
           in if time_deltas = [] then Pattern ''TEMPORAL_LAYERING'' 0.0 ''NONE'' [] []
              else let avg_delta = sum_list time_deltas / real (length time_deltas);
                       time_span = (last ts - hd ts) / 3600;
                       (c1, e1) =
                         (if time_span < 24 \<and> length ts > 10
                          then (0.4, [RapidLayering (length ts) time_span]) else (0, []));
                       time_variance =
                         sum_list (map (\<lambda>delta. (delta - avg_delta)\<^sup>2) time_deltas)
                         / real (length time_deltas);
                       time_std = sqrt time_variance;
                       (c2, e2) =
                         (if time_std < avg_delta * 0.2 \<and> length time_deltas > 5
                          then (0.3, [AutomatedTiming avg_delta]) else (0, []));
                       suspicious_hours = length [t \<leftarrow> ts. 2 \<le> hour t \<and> hour t < 5];
                       (c3, e3) =
                         (if real suspicious_hours / real (length ts) > 0.3
                          then (0.2, [OffHoursActivity suspicious_hours (length ts)])
                          else (0, []))
                   in Pattern ''TEMPORAL_LAYERING'' (min (0.0 + c1 + c2 + c3) 1.0)
                        (if time_span < 6 then ''RAPID_BURST''
                         else if time_std < avg_delta * 0.2 then ''AUTOMATED_TIMING''
                         else ''DISTRIBUTED_LAYERING'')
                        (e1 @ e2 @ e3) [])"

text \<open>The end of \<open>classify_laundering_pattern\<close>, from the list \<open>patterns\<close> of the
  detector results that were kept.\<close>

definition primary_pattern :: "pattern list \<Rightarrow> pattern" where
  "primary_pattern patterns =
     (if patterns = []
      then Pattern ''NORMAL_ACTIVITY'' 0.0 ''NO_SUSPICIOUS_PATTERN'' [] []
      else let ranked = sorted_desc confidence patterns in
        if length ranked \<ge> 2 \<and> confidence (ranked ! 1) > 0.5
        then Pattern ''MIXED_STRATEGY''
               (min (confidence (ranked ! 0) + confidence (ranked ! 1) * 0.3) 1.0)
               (kind (ranked ! 0) @ ''_'' @ kind (ranked ! 1))
               (evidence (ranked ! 0) @ evidence (ranked ! 1))
               [ranked ! 0, ranked ! 1]
        else ranked ! 0)"

definition classify_laundering_pattern :: "analyzer \<Rightarrow> wallet \<Rightarrow> exn + pattern" where
  "classify_laundering_pattern a wallet =
     (let ins = in_edges (graph a) wallet;
          outs = out_edges (graph a) wallet;
          fan_pattern = detect_fan_out_fan_in_pattern a wallet ins outs
      in case detect_peeling_pattern a wallet outs of
           Inl e \<Rightarrow> Inl e
         | Inr peel_pattern \<Rightarrow>
        (case detect_cyclic_pattern a wallet of
           Inl e \<Rightarrow> Inl e
         | Inr cyclic_pattern \<Rightarrow>
             (let temporal_pattern = detect_temporal_layering a wallet ins outs
              in Inr (primary_pattern
                        [p \<leftarrow> [fan_pattern, peel_pattern, cyclic_pattern, temporal_pattern].
                           confidence p > 0.3]))))"

subsection \<open>\<open>get_wallet_summary\<close>\<close>

record wallet_summary =
  wallet_address :: wallet
  summary_suspicion_score :: real
  summary_centrality :: centrality
  total_received :: real
  total_sent :: real
  unique_senders :: nat
  unique_receivers :: nat
  is_illicit :: bool
  summary_distance_to_illicit :: int

definition get_wallet_summary :: "nx_algorithms \<Rightarrow> analyzer \<Rightarrow> wallet \<Rightarrow> exn + wallet_summary" where
  "get_wallet_summary nx a wallet =
     (case calculate_suspicion_score nx a wallet of
        Inl e \<Rightarrow> Inl e
      | Inr score \<Rightarrow>
     (case predecessors (graph a) wallet of
        Inl e \<Rightarrow> Inl e
      | Inr senders \<Rightarrow>
     (case successors (graph a) wallet of
        Inl e \<Rightarrow> Inl e
      | Inr receivers \<Rightarrow>
          Inr \<lparr>wallet_address = wallet,
               summary_suspicion_score = score,
               summary_centrality = calculate_wallet_centrality nx a wallet,
               total_received = sum_total_amount (in_edges (graph a) wallet),
               total_sent = sum_total_amount (out_edges (graph a) wallet),
               unique_senders = length senders,
               unique_receivers = length receivers,
               is_illicit = (wallet \<in> set (illicit_wallets a)),
               summary_distance_to_illicit = distance_to_illicit_wallets a wallet\<rparr>)))"

section \<open>Specification-level notions\<close>

text \<open>The transactions of a batch from \<open>s\<close> to \<open>d\<close>, in the order of the batch, and
  the aggregate the specification asks the edge of that pair to hold.\<close>

definition pair_txns :: "wallet \<Rightarrow> wallet \<Rightarrow> transaction list \<Rightarrow> transaction list" where
  "pair_txns s d txns = filter (\<lambda>t. source_wallet t = s \<and> dest_wallet t = d) txns"

definition aggregate :: "transaction list \<Rightarrow> edge_data" where
  "aggregate txns =
     \<lparr>transactions = map entry_of txns, total_amount = sum_list (map amount txns),
      transaction_count = int (length txns)\<rparr>"

text \<open>The analyzer after a sequence of \<open>load_transactions\<close> calls on a fresh instance.\<close>

definition loaded :: "transaction list list \<Rightarrow> analyzer" where
  "loaded batches = foldl (\<lambda>a batch. load_transactions batch a) init batches"

definition txn :: "wallet \<Rightarrow> wallet \<Rightarrow> real \<Rightarrow> real \<Rightarrow> transaction" where
  "txn s d amt ts =
     \<lparr>source_wallet = s, dest_wallet = d, amount = amt, timestamp = ts, token_type = None\<rparr>"

text \<open>The consecutive pairs of amounts that decrease by more than 5%, and the test "at
  least 70% of the consecutive pairs decrease by more than 5%" of the specification.\<close>

definition decreasing_pairs :: "real list \<Rightarrow> nat" where
  "decreasing_pairs amounts =
     length (filter (\<lambda>(previous, current). current < previous * 0.95) (zip amounts (tl amounts)))"

definition seventy_percent_of_pairs :: "real list \<Rightarrow> bool" where
  "seventy_percent_of_pairs amounts =
     (real (decreasing_pairs amounts) \<ge> 0.7 * real (length amounts - 1))"

text \<open>The wallet a chain ends in.\<close>

definition chain_end :: "peeling_chain \<Rightarrow> wallet" where
  "chain_end c = last (chain c)"

text \<open>Every step of the list is an edge of the graph.\<close>

fun edges_exist :: "digraph \<Rightarrow> wallet list \<Rightarrow> bool" where
  "edges_exist g (u # v # p) = (has_edge g u v \<and> edges_exist g (v # p))"
| "edges_exist g p = True"

definition all_multi_hop :: "smurfing_pattern list \<Rightarrow> bool" where
  "all_multi_hop ps = list_all (\<lambda>p. pattern_type p = ''multi_hop_smurfing'') ps"

text \<open>The paths the second part of \<open>detect_fan_out_fan_in\<close> is to report: the simple
  paths from the wallet to another node, of at most \<open>max_depth\<close> edges, with at least
  three wallets, at least \<open>min_intermediaries\<close> different wallets between the two ends
  and a pattern score above 0.5.\<close>

definition qualifying_paths :: "analyzer \<Rightarrow> wallet \<Rightarrow> int \<Rightarrow> int \<Rightarrow> wallet list set" where
  "qualifying_paths a wallet max_depth min_intermediaries =
     {p. \<exists>target paths info.
           target \<in> set (nodes (graph a)) \<and> target \<noteq> wallet
         \<and> all_simple_paths (graph a) wallet target max_depth = Inr paths \<and> p \<in> set paths
         \<and> 3 \<le> length p \<and> min_intermediaries \<le> int (card (set (butlast (tl p))))
         \<and> analyze_pattern a p = Inr info \<and> 0.5 < info_suspicion_score info}"

text \<open>Two properties of the chains a search returns. \<open>one_route\<close>: two paths that pass
  through the same wallet have the same wallets before it. \<open>route_tree\<close>: a set of
  non-empty paths, no two with the same last wallet, that holds with a path of two or more
  wallets also the path without its last wallet; such paths form a tree.\<close>

definition one_route :: "wallet list list \<Rightarrow> bool" where
  "one_route ps =
     (\<forall>p \<in> set ps. \<forall>q \<in> set ps. \<forall>x \<in> set p \<inter> set q.
        takeWhile (\<lambda>y. y \<noteq> x) p = takeWhile (\<lambda>y. y \<noteq> x) q)"

definition route_tree :: "wallet list set \<Rightarrow> bool" where
  "route_tree P =
     ((\<forall>p \<in> P. p \<noteq> []) \<and> inj_on last P \<and> (\<forall>p x. p @ [x] \<in> P \<and> p \<noteq> [] \<longrightarrow> p \<in> P))"

text \<open>The edges of the graph as a relation, and one round of the breadth-first search:
  the wallets seen so far and their successors.\<close>

definition edge_rel :: "digraph \<Rightarrow> (wallet \<times> wallet) set" where
  "edge_rel g = {(u, v). has_edge g u v}"

definition widen :: "digraph \<Rightarrow> wallet list \<Rightarrow> wallet list" where
  "widen g seen = remdups (seen @ concat (map (succ_keys g) seen))"

section \<open>Example graphs\<close>

text \<open>The chain A, B, C, D, E, F of the specification, with the amounts 100, 94, 88, 82,
  76.\<close>

definition chain6 :: analyzer where
  "chain6 = loaded [[txn ''A'' ''B'' 100 0, txn ''B'' ''C'' 94 60, txn ''C'' ''D'' 88 120,
                     txn ''D'' ''E'' 82 180, txn ''E'' ''F'' 76 240]]"

text \<open>The same chain with the amounts 100, 100, 94, 88, 82: three of its four consecutive
  pairs decrease by more than 5%.\<close>

definition flat_start :: analyzer where
  "flat_start = loaded [[txn ''A'' ''B'' 100 0, txn ''B'' ''C'' 100 60, txn ''C'' ''D'' 94 120,
                     txn ''D'' ''E'' 88 180, txn ''E'' ''F'' 82 240]]"

text \<open>Two paths from S that meet in C: S, A, C, D, E and S, B, C, D, E, with the same
  amounts along both.\<close>

definition diamond :: analyzer where
  "diamond = loaded [[txn ''S'' ''A'' 100 0, txn ''S'' ''B'' 100 0, txn ''A'' ''C'' 94 60,
                      txn ''B'' ''C'' 94 60, txn ''C'' ''D'' 88 120, txn ''D'' ''E'' 82 180]]"

text \<open>The same with a second wallet after D: the paths S, A, C, D, E and S, A, C, D, F go
  through A, the paths S, B, C, D, E and S, B, C, D, F through B.\<close>

definition fork :: analyzer where
  "fork = loaded [[txn ''S'' ''A'' 100 0, txn ''S'' ''B'' 100 0, txn ''A'' ''C'' 94 60,
                   txn ''B'' ''C'' 94 60, txn ''C'' ''D'' 88 120, txn ''D'' ''E'' 82 180,
                   txn ''D'' ''F'' 82 180]]"

text \<open>The wallet W receives from the illicit wallet X and sends to five wallets; from
  one of them a chain leads on: W, a, p, q, r.\<close>

definition smurf :: analyzer where
  "smurf = mark_illicit_wallets [''X'']
     (loaded [[txn ''X'' ''W'' 20000 0,
               txn ''W'' ''a'' 4000 0, txn ''W'' ''b'' 4000 0, txn ''W'' ''c'' 4000 0,
               txn ''W'' ''d'' 4000 0, txn ''W'' ''e'' 4000 0,
               txn ''a'' ''p'' 4000 0, txn ''p'' ''q'' 4000 0, txn ''q'' ''r'' 4000 0]])"

text \<open>Two separate edges; C is illicit, and no path joins A and C.\<close>

definition apart :: analyzer where
  "apart = mark_illicit_wallets [''C'']
     (loaded [[txn ''A'' ''B'' 10 0, txn ''C'' ''D'' 10 0]])"

text \<open>A and B send to each other; C sends to D. The wallets A and B can reach each
  other, and nothing else reaches them or is reached from them.\<close>

definition two_parts :: analyzer where
  "two_parts = loaded [[txn ''A'' ''B'' 10 0, txn ''B'' ''A'' 10 0, txn ''C'' ''D'' 10 0]]"

text \<open>A and B send to each other, and there is no other wallet. On this graph the
  library gives betweenness 0 and PageRank 1/2 to both wallets; \<open>nx_cycle2\<close> holds
  these two results.\<close>

definition cycle2 :: analyzer where
  "cycle2 = loaded [[txn ''A'' ''B'' 10 0, txn ''B'' ''A'' 10 0]]"

definition nx_cycle2 :: nx_algorithms where
  "nx_cycle2 =
     \<lparr>betweenness_centrality = (\<lambda>g. Inr (map_of [(''A'', 0), (''B'', 0)])),
      pagerank = (\<lambda>g. Inr (map_of [(''A'', 1 / 2), (''B'', 1 / 2)]))\<rparr>"

text \<open>An edge that carries one transaction.\<close>

definition single :: "real \<Rightarrow> real \<Rightarrow> edge_data" where
  "single amt ts =
     \<lparr>transactions = [\<lparr>txn_amount = amt, txn_timestamp = ts, txn_token_type = ''UNKNOWN''\<rparr>],
      total_amount = amt, transaction_count = 1\<rparr>"

text \<open>W and X send to each other, and W starts the chain W, Y, p, q, r.\<close>

definition mixer :: analyzer where
  "mixer = loaded [[txn ''W'' ''X'' 100 0, txn ''X'' ''W'' 10 0, txn ''W'' ''Y'' 50 0,
                    txn ''Y'' ''p'' 50 0, txn ''p'' ''q'' 50 0, txn ''q'' ''r'' 50 0]]"

text \<open>W receives from five wallets and sends ten different amounts to ten wallets; from
  the first of them a chain of five hops leads on. All transactions are at noon of day
  0.\<close>

definition layered :: analyzer where
  "layered = loaded [[
     txn ''s1'' ''W'' 100 43200, txn ''s2'' ''W'' 100 43200, txn ''s3'' ''W'' 100 43200,
     txn ''s4'' ''W'' 100 43200, txn ''s5'' ''W'' 100 43200,
     txn ''W'' ''d0'' 10 43200, txn ''W'' ''d1'' 20 43200, txn ''W'' ''d2'' 30 43200,
     txn ''W'' ''d3'' 40 43200, txn ''W'' ''d4'' 50 43200, txn ''W'' ''d5'' 60 43200,
     txn ''W'' ''d6'' 70 43200, txn ''W'' ''d7'' 80 43200, txn ''W'' ''d8'' 90 43200,
     txn ''W'' ''d9'' 100 43200,
     txn ''d0'' ''c1'' 10 43200, txn ''c1'' ''c2'' 10 43200, txn ''c2'' ''c3'' 10 43200,
     txn ''c3'' ''c4'' 10 43200, txn ''c4'' ''c5'' 10 43200]]"

text \<open>The same with a transaction back from d1 to W.\<close>

definition layered_back :: analyzer where
  "layered_back = loaded [[
     txn ''s1'' ''W'' 100 43200, txn ''s2'' ''W'' 100 43200, txn ''s3'' ''W'' 100 43200,
     txn ''s4'' ''W'' 100 43200, txn ''s5'' ''W'' 100 43200,
     txn ''W'' ''d0'' 10 43200, txn ''W'' ''d1'' 20 43200, txn ''W'' ''d2'' 30 43200,
     txn ''W'' ''d3'' 40 43200, txn ''W'' ''d4'' 50 43200, txn ''W'' ''d5'' 60 43200,
     txn ''W'' ''d6'' 70 43200, txn ''W'' ''d7'' 80 43200, txn ''W'' ''d8'' 90 43200,
     txn ''W'' ''d9'' 100 43200,
     txn ''d0'' ''c1'' 10 43200, txn ''c1'' ''c2'' 10 43200, txn ''c2'' ''c3'' 10 43200,
     txn ''c3'' ''c4'' 10 43200, txn ''c4'' ''c5'' 10 43200,
     txn ''d1'' ''W'' 20 43200]]"

section \<open>The graph store\<close>

lemma map_of_update_edge:
  "map_of (update_edge f k g) k' =
     (if k' = k then map_option f (map_of g k) else map_of g k')"
  by (induction g) auto

lemma map_fst_update_edge: "map fst (update_edge f k g) = map fst g"
  by (induction g) auto

lemma has_edge_map_of: "has_edge g u v \<longleftrightarrow> map_of g (u, v) \<noteq> None"
  by (simp add: has_edge_def map_of_eq_None_iff)

lemma map_fst_load_transaction:
  "map fst (load_transaction g t) =
     (if has_edge g (source_wallet t) (dest_wallet t) then map fst g
      else map fst g @ [(source_wallet t, dest_wallet t)])"
  by (simp add: load_transaction_def Let_def map_fst_update_edge)

lemma distinct_load_transaction:
  "distinct (map fst g) \<Longrightarrow> distinct (map fst (load_transaction g t))"
  by (simp add: map_fst_load_transaction has_edge_def)

lemma distinct_foldl_load:
  "distinct (map fst g) \<Longrightarrow> distinct (map fst (foldl load_transaction g txns))"
  by (induction txns arbitrary: g) (simp_all add: distinct_load_transaction)

lemma map_of_load_transaction:
  "map_of (load_transaction g t) (s, d) =
     (if source_wallet t = s \<and> dest_wallet t = d
      then Some (case map_of g (s, d) of
                   None \<Rightarrow> aggregate [t]
                 | Some e \<Rightarrow> e\<lparr>transactions := transactions e @ [entry_of t],
                    total_amount := total_amount e + amount t,
                    transaction_count := transaction_count e + 1\<rparr>)
      else map_of g (s, d))"
  by (auto simp: load_transaction_def Let_def map_of_update_edge has_edge_map_of
      aggregate_def map_add_def split: option.splits)

lemma map_of_foldl_load:
  "map_of (foldl load_transaction [] txns) (s, d) =
     (if pair_txns s d txns = [] then None else Some (aggregate (pair_txns s d txns)))"
proof (induction txns rule: rev_induct)
  case Nil
  then show ?case by (simp add: pair_txns_def)
next
  case (snoc t txns)
  then show ?case
    by (auto simp: map_of_load_transaction pair_txns_def aggregate_def)
qed

lemma graph_loaded: "graph (loaded batches) = foldl load_transaction [] (concat batches)"
proof -
  have "graph (foldl (\<lambda>a batch. load_transactions batch a) a batches) =
        foldl load_transaction (graph a) (concat batches)" for a
    by (induction batches arbitrary: a) (simp_all add: load_transactions_def)
  then show ?thesis by (simp add: loaded_def init_def)
qed

lemma count_le_one: "distinct (map fst g) \<Longrightarrow> length (filter (\<lambda>e. fst e = k) g) \<le> 1"
  by (induction g) (auto simp: filter_empty_conv image_iff)

text \<open>
  C7. After any sequence of \<open>load_transactions\<close> calls on a fresh analyzer, every ordered
  pair \<open>(s, d)\<close> has at most one edge; the pair has an edge exactly when a transaction
  was loaded for it, and then the edge holds these transactions in the order they were
  loaded, the sum of their amounts and their number.
\<close>

theorem load_transactions_aggregates:
  "length (filter (\<lambda>e. fst e = (s, d)) (graph (loaded batches))) \<le> 1
   \<and> has_edge (graph (loaded batches)) s d = (pair_txns s d (concat batches) \<noteq> [])
   \<and> edge (graph (loaded batches)) s d =
       (if pair_txns s d (concat batches) = [] then Inl KeyError
        else Inr \<lparr>transactions = map entry_of (pair_txns s d (concat batches)),
                  total_amount = sum_list (map amount (pair_txns s d (concat batches))),
                  transaction_count = int (length (pair_txns s d (concat batches)))\<rparr>)"
proof -
  have "distinct (map fst (graph (loaded batches)))"
    by (simp add: graph_loaded distinct_foldl_load)
  then have one: "length (filter (\<lambda>e. fst e = (s, d)) (graph (loaded batches))) \<le> 1"
    by (rule count_le_one)
  have look: "map_of (graph (loaded batches)) (s, d) =
      (if pair_txns s d (concat batches) = [] then None
       else Some (aggregate (pair_txns s d (concat batches))))"
    by (simp add: graph_loaded map_of_foldl_load)
  show ?thesis
    using one look by (simp add: has_edge_map_of edge_def aggregate_def)
qed

text \<open>The round trip of the specification: two transactions from A to B, 10 at \<open>t0 = 0\<close>
  and 5 at \<open>t1 = 60\<close>, loaded in one batch.\<close>

theorem load_transactions_aggregates_witness:
  "length (filter (\<lambda>e. fst e = (''A'', ''B''))
      (graph (loaded [[txn ''A'' ''B'' 10 0, txn ''A'' ''B'' 5 60]]))) \<le> 1
   \<and> has_edge (graph (loaded [[txn ''A'' ''B'' 10 0, txn ''A'' ''B'' 5 60]])) ''A'' ''B''
   \<and> edge (graph (loaded [[txn ''A'' ''B'' 10 0, txn ''A'' ''B'' 5 60]])) ''A'' ''B'' =
       Inr \<lparr>transactions =
              [\<lparr>txn_amount = 10, txn_timestamp = 0, txn_token_type = ''UNKNOWN''\<rparr>,
               \<lparr>txn_amount = 5, txn_timestamp = 60, txn_token_type = ''UNKNOWN''\<rparr>],
            total_amount = 15, transaction_count = 2\<rparr>"
  using load_transactions_aggregates
    [of "''A''" "''B''" "[[txn ''A'' ''B'' 10 0, txn ''A'' ''B'' 5 60]]"]
  by (simp add: pair_txns_def txn_def entry_of_def)

section \<open>Marking illicit wallets\<close>

text \<open>
  C2 as stated (the illicit set after \<open>mark_illicit_wallets\<close> is the union of the set
  before and the new addresses) fails: a wallet marked by an earlier call is no longer
  marked.
\<close>

theorem mark_illicit_wallets_union_counterexample:
  "set (illicit_wallets (mark_illicit_wallets [''B''] (mark_illicit_wallets [''A''] init)))
     \<noteq> set (illicit_wallets (mark_illicit_wallets [''A''] init)) \<union> set [''B'']"
  by (simp add: mark_illicit_wallets_def fromkeys_def init_def)

text \<open>
  C2, amended. \<open>mark_illicit_wallets\<close> replaces the illicit set: after the call it is the
  set of the addresses of the list, whatever it was before, and the graph is not touched.
\<close>

theorem mark_illicit_wallets_replaces:
  "set (illicit_wallets (mark_illicit_wallets l a)) = set l
   \<and> graph (mark_illicit_wallets l a) = graph a"
  by (simp add: mark_illicit_wallets_def fromkeys_def)

theorem mark_illicit_wallets_replaces_witness:
  "set (illicit_wallets (mark_illicit_wallets [''B''] (mark_illicit_wallets [''A''] init)))
     = {''B''}
   \<and> graph (mark_illicit_wallets [''B''] (mark_illicit_wallets [''A''] init)) = []"
  using mark_illicit_wallets_replaces [of "[''B'']" "mark_illicit_wallets [''A''] init"]
  by (simp add: mark_illicit_wallets_def init_def)

section \<open>Facts about the views of the graph\<close>

lemmas load_eval =
  loaded_def load_transactions_def load_transaction_def init_def has_edge_def txn_def
  entry_of_def Let_def

lemma set_fromkeys [simp]: "set (fromkeys xs) = set xs"
  by (simp add: fromkeys_def)

lemma distinct_fromkeys [simp]: "distinct (fromkeys xs)"
  by (simp add: fromkeys_def)

lemma length_fromkeys_le: "length (fromkeys xs) \<le> length xs"
  by (simp add: fromkeys_def) (metis length_remdups_leq length_rev)

lemma edge_nodes:
  "((u, v), d) \<in> set g \<Longrightarrow> u \<in> set (nodes g) \<and> v \<in> set (nodes g)"
  by (force simp: nodes_def)

lemma nbunch_iter_node: "has_node g w \<Longrightarrow> fromkeys (nbunch_iter g w) = [w]"
  by (simp add: nbunch_iter_def fromkeys_def)

lemma in_edges_node:
  "has_node g w \<Longrightarrow> in_edges g w = [(u, v, d). ((u, v), d) \<leftarrow> g, v = w]"
  by (simp add: in_edges_def nbunch_iter_node)

lemma out_edges_node:
  "has_node g w \<Longrightarrow> out_edges g w = [(u, v, d). ((u, v), d) \<leftarrow> g, u = w]"
  by (simp add: out_edges_def nbunch_iter_node)

lemma has_edge_node: "has_edge g u v \<Longrightarrow> has_node g u \<and> has_node g v"
  by (auto simp: has_edge_def has_node_def dest: edge_nodes)

lemma in_edges_has_edge:
  "has_node g w \<Longrightarrow> (u, v, d) \<in> set (in_edges g w) \<Longrightarrow> has_edge g u w"
  by (force simp: in_edges_node has_edge_def)

lemma illicit_sources_has_edge:
  "has_node (graph a) w \<Longrightarrow> src \<in> set (illicit_sources a (in_edges (graph a) w))
   \<Longrightarrow> has_edge (graph a) src w"
  by (auto simp: illicit_sources_def dest: in_edges_has_edge)

lemma edge_Inr: "has_edge g u v \<Longrightarrow> \<exists>d. edge g u v = Inr d"
  by (auto simp: edge_def has_edge_map_of split: option.splits)

lemma succ_keys_has_edge: "c \<in> set (succ_keys g u) \<Longrightarrow> has_edge g u c"
  by (force simp: succ_keys_def has_edge_def)

lemma total_from_Inr:
  "\<forall>src \<in> set srcs. has_edge g src w \<Longrightarrow> \<exists>s. total_from g srcs w = Inr s"
proof (induction srcs)
  case Nil
  then show ?case by simp
next
  case (Cons src srcs)
  then obtain d s where "edge g src w = Inr d" "total_from g srcs w = Inr s"
    using edge_Inr by (metis list.set_intros(1,2))
  then show ?case by simp
qed

lemma source_timestamps_Inr:
  "\<forall>src \<in> set srcs. has_edge g src w \<Longrightarrow> \<exists>ts. source_timestamps g srcs w = Inr ts"
proof (induction srcs)
  case Nil
  then show ?case by simp
next
  case (Cons src srcs)
  then obtain d ts where "edge g src w = Inr d" "source_timestamps g srcs w = Inr ts"
    using edge_Inr by (metis list.set_intros(1,2))
  then show ?case by simp
qed

lemma total_from_illicit_sources:
  "has_node (graph a) w \<Longrightarrow>
     \<exists>s. total_from (graph a) (illicit_sources a (in_edges (graph a) w)) w = Inr s"
  using total_from_Inr illicit_sources_has_edge by blast

lemma distinct_map_sorted_desc:
  "distinct (map f (sorted_desc k xs)) = distinct (map f xs)"
proof -
  have card: "distinct ys \<longleftrightarrow> card (set ys) = length ys" for ys :: "'c list"
    using distinct_card card_distinct by blast
  show ?thesis
    unfolding card [of "map f (sorted_desc k xs)"] card [of "map f xs"]
    by (simp add: sorted_desc_def)
qed

lemma nodes_empty: "nodes g = [] \<longleftrightarrow> g = []"
  by (cases g) (auto simp: nodes_def fromkeys_def)

section \<open>The breadth-first search finds what can be reached\<close>

text \<open>The distance of the model is defined exactly where a path of edges exists, so
  \<open>has_path\<close> and \<open>is_strongly_connected\<close> answer as the library documents.\<close>

lemma set_succ_keys: "set (succ_keys g u) = {v. has_edge g u v}"
  by (force simp: succ_keys_def has_edge_def)

lemma set_widen: "set (widen g seen) = set seen \<union> edge_rel g `` set seen"
  by (auto simp: widen_def set_succ_keys edge_rel_def)

lemma bfs_dist_widen:
  "bfs_dist g seen t (Suc fuel) k =
     (if t \<in> set seen then Some k else bfs_dist g (widen g seen) t fuel (Suc k))"
  by (simp add: widen_def)

lemma bfs_dist_Some_iff:
  "bfs_dist g seen t fuel k \<noteq> None \<longleftrightarrow> (\<exists>j \<le> fuel. t \<in> set ((widen g ^^ j) seen))"
proof (induction fuel arbitrary: seen k)
  case 0
  then show ?case by simp
next
  case (Suc fuel)
  show ?case
  proof (cases "t \<in> set seen")
    case True
    then show ?thesis by (auto intro: exI [of _ 0])
  next
    case False
    have "(\<exists>j \<le> Suc fuel. t \<in> set ((widen g ^^ j) seen))
        \<longleftrightarrow> (\<exists>j \<le> fuel. t \<in> set ((widen g ^^ j) (widen g seen)))"
    proof
      assume "\<exists>j \<le> Suc fuel. t \<in> set ((widen g ^^ j) seen)"
      then obtain j where j: "j \<le> Suc fuel" "t \<in> set ((widen g ^^ j) seen)" by blast
      then obtain i where "j = Suc i" using False by (cases j) auto
      then show "\<exists>j \<le> fuel. t \<in> set ((widen g ^^ j) (widen g seen))"
        using j by (auto simp: funpow_swap1)
    next
      assume "\<exists>j \<le> fuel. t \<in> set ((widen g ^^ j) (widen g seen))"
      then obtain j where "j \<le> fuel" "t \<in> set ((widen g ^^ j) (widen g seen))" by blast
      then show "\<exists>j \<le> Suc fuel. t \<in> set ((widen g ^^ j) seen)"
        by (auto simp: funpow_swap1 intro!: exI [of _ "Suc j"])
    qed
    then show ?thesis
      using False Suc.IH [of "widen g seen" "Suc k"] by (simp only: bfs_dist_widen) simp
  qed
qed

lemma widen_mono: "set ((widen g ^^ i) seen) \<subseteq> set ((widen g ^^ (i + j)) seen)"
  by (induction j) (auto simp: set_widen)

lemma widen_reachable:
  "set seen \<subseteq> (edge_rel g)\<^sup>* `` {s} \<Longrightarrow> set ((widen g ^^ j) seen) \<subseteq> (edge_rel g)\<^sup>* `` {s}"
proof (induction j)
  case 0
  then show ?case by simp
next
  case (Suc j)
  then show ?case
    by (auto simp: set_widen intro: rtrancl_into_rtrancl)
qed

lemma widen_nodes:
  "set seen \<subseteq> set (nodes g) \<Longrightarrow> set ((widen g ^^ j) seen) \<subseteq> set (nodes g)"
proof (induction j)
  case 0
  then show ?case by simp
next
  case (Suc j)
  have "edge_rel g `` A \<subseteq> set (nodes g)" for A
    using has_edge_node by (auto simp: edge_rel_def has_node_def)
  then show ?case using Suc by (auto simp: set_widen)
qed

lemma widen_fixed:
  "set (widen g seen) = set seen \<Longrightarrow> set ((widen g ^^ j) seen) = set seen"
proof (induction j)
  case 0
  then show ?case by simp
next
  case (Suc j)
  then have "set ((widen g ^^ j) seen) = set seen" by simp
  then have "set (widen g ((widen g ^^ j) seen)) = set (widen g seen)"
    by (simp add: set_widen)
  then show ?case using Suc.prems by simp
qed

lemma widen_grows:
  assumes "\<forall>i < n. set ((widen g ^^ Suc i) seen) \<noteq> set ((widen g ^^ i) seen)"
  shows "card (set seen) + n \<le> card (set ((widen g ^^ n) seen))"
  using assms
proof (induction n)
  case 0
  then show ?case by simp
next
  case (Suc n)
  have "set ((widen g ^^ n) seen) \<subset> set ((widen g ^^ Suc n) seen)"
    using Suc.prems by (auto simp: set_widen)
  then have "card (set ((widen g ^^ n) seen)) < card (set ((widen g ^^ Suc n) seen))"
    by (intro psubset_card_mono) auto
  then show ?case using Suc by fastforce
qed

lemma widen_closed:
  assumes "s \<in> set (nodes g)"
  shows "edge_rel g `` set ((widen g ^^ length (nodes g)) [s])
         \<subseteq> set ((widen g ^^ length (nodes g)) [s])"
proof -
  let ?n = "length (nodes g)"
  let ?W = "\<lambda>i. set ((widen g ^^ i) [s])"
  have "\<exists>i < ?n. ?W (Suc i) = ?W i"
  proof (rule ccontr)
    assume "\<not> (\<exists>i < ?n. ?W (Suc i) = ?W i)"
    then have "card (set [s]) + ?n \<le> card (?W ?n)"
      using widen_grows [of ?n g "[s]"] by blast
    moreover have "card (?W ?n) \<le> card (set (nodes g))"
      using widen_nodes [of "[s]" g ?n] assms by (intro card_mono) auto
    moreover have "card (set (nodes g)) \<le> ?n"
      by (rule card_length)
    ultimately show False by simp
  qed
  then obtain i where i: "i < ?n" "?W (Suc i) = ?W i" by blast
  have "set (widen g ((widen g ^^ i) [s])) = set ((widen g ^^ i) [s])"
    using i(2) by simp
  then have fixed: "set ((widen g ^^ j) ((widen g ^^ i) [s])) = ?W i" for j
    by (rule widen_fixed)
  have "(widen g ^^ (?n - i + i)) [s] = (widen g ^^ (?n - i)) ((widen g ^^ i) [s])"
    by (simp only: funpow_add comp_apply)
  then have "?W ?n = ?W i"
    using fixed [of "?n - i"] i(1) by simp
  moreover have "edge_rel g `` ?W i \<subseteq> ?W (Suc i)"
    by (auto simp: set_widen)
  ultimately show ?thesis using i(2) by simp
qed

lemma distance_reachable:
  assumes "has_node g s"
  shows "distance g s t \<noteq> None \<longleftrightarrow> (s, t) \<in> (edge_rel g)\<^sup>*"
proof
  assume "distance g s t \<noteq> None"
  then have "bfs_dist g [s] t (length (nodes g)) 0 \<noteq> None"
    by (simp add: distance_def)
  then obtain j where "t \<in> set ((widen g ^^ j) [s])"
    unfolding bfs_dist_Some_iff by blast
  then show "(s, t) \<in> (edge_rel g)\<^sup>*"
    using widen_reachable [of "[s]" g s j] by auto
next
  assume "(s, t) \<in> (edge_rel g)\<^sup>*"
  then have "t \<in> set ((widen g ^^ length (nodes g)) [s])"
  proof (induction rule: rtrancl_induct)
    case base
    then show ?case using widen_mono [where g = g and i = 0 and seen = "[s]" and j = "length (nodes g)"]
      by auto
  next
    case (step y z)
    then show ?case
      using widen_closed [of s g] assms by (auto simp: has_node_def)
  qed
  then have "bfs_dist g [s] t (length (nodes g)) 0 \<noteq> None"
    unfolding bfs_dist_Some_iff by blast
  then show "distance g s t \<noteq> None"
    by (simp add: distance_def)
qed

lemma has_path_reachable:
  "has_node g s \<Longrightarrow> has_node g t \<Longrightarrow> has_path g s t = Inr ((s, t) \<in> (edge_rel g)\<^sup>*)"
  using distance_reachable [of g s t]
  by (auto simp: has_path_def shortest_path_length_def split: option.splits)

lemma is_strongly_connected_reachable:
  "g \<noteq> [] \<Longrightarrow>
     is_strongly_connected g =
       Inr (\<forall>u \<in> set (nodes g). \<forall>v \<in> set (nodes g). (u, v) \<in> (edge_rel g)\<^sup>*)"
  using distance_reachable
  by (simp add: is_strongly_connected_def nodes_empty list_all_iff has_node_def)

section \<open>Peeling chains\<close>

lemmas peeling_eval =
  detect_peeling_chain_def has_node_def nodes_def fromkeys_def is_peeling_pattern_def
  calculate_peeling_score_def sorted_desc_def upt_rec

lemma foldl_count:
  "foldl (\<lambda>c i. if P i then c + 1 else c) (c0::nat) is = c0 + length (filter P is)"
  by (induction "is" arbitrary: c0) auto

lemma zip_tl_indices:
  "zip xs (tl xs) = map (\<lambda>i. (xs ! (i - 1), xs ! i)) [1..<length xs]"
  by (rule nth_equalityI) (auto simp: nth_tl)

lemma decreasing_pairs_indices:
  "decreasing_pairs amounts =
     length (filter (\<lambda>i. amounts ! i < amounts ! (i - 1) * 0.95) [1..<length amounts])"
  unfolding decreasing_pairs_def zip_tl_indices
  by (simp add: filter_map comp_def)

lemma is_peeling_pattern_iff:
  "is_peeling_pattern amounts \<longleftrightarrow>
     3 \<le> length amounts \<and> 0.7 * real (length amounts) \<le> real (decreasing_pairs amounts)"
  by (auto simp: is_peeling_pattern_def foldl_count decreasing_pairs_indices Let_def)

text \<open>
  On the chain A, B, C, D, E, F with the amounts 100, 94, 88, 82, 76 of the specification,
  \<open>detect_peeling_chain\<close> from A with \<open>min_hops = 5\<close> returns two chains, of suspicion
  score 0.5 and 0.3: all four pairs of the five amounts decrease by more than 5%, and so
  do all three pairs of the first four amounts.
\<close>

lemma chain6_peeling:
  "detect_peeling_chain chain6 ''A'' 5 =
     Inr [\<lparr>chain_source = ''A'', chain = [''A'', ''B'', ''C'', ''D'', ''E'', ''F''],
           chain_amounts = [100, 94, 88, 82, 76], total_peeled = 364,
           chain_suspicion_score = 0.5\<rparr>,
          \<lparr>chain_source = ''A'', chain = [''A'', ''B'', ''C'', ''D'', ''E''],
           chain_amounts = [100, 94, 88, 82], total_peeled = 282,
           chain_suspicion_score = 0.3\<rparr>]"
  by (simp add: chain6_def load_eval peeling_eval)

text \<open>
  What the test \<open>_is_peeling_pattern\<close> asks for lies between two conditions on the
  pairs: amounts that pass it have 70% of their pairs decreasing, and amounts all of
  whose pairs decrease pass it once there are four of them. Three amounts never pass:
  they have two pairs, and the test asks for 2.1.
\<close>

lemma is_peeling_pattern_needs:
  "is_peeling_pattern amounts \<Longrightarrow> 3 \<le> length amounts \<and> seventy_percent_of_pairs amounts"
  by (auto simp: is_peeling_pattern_iff seventy_percent_of_pairs_def)

lemma is_peeling_pattern_all_pairs:
  "4 \<le> length amounts \<Longrightarrow> decreasing_pairs amounts = length amounts - 1
   \<Longrightarrow> is_peeling_pattern amounts"
  by (auto simp: is_peeling_pattern_iff)

lemma is_peeling_pattern_three:
  "length amounts = 3 \<Longrightarrow> \<not> is_peeling_pattern amounts"
proof -
  assume l: "length amounts = 3"
  have "decreasing_pairs amounts \<le> length (zip amounts (tl amounts))"
    unfolding decreasing_pairs_def by (rule length_filter_le)
  then have "decreasing_pairs amounts \<le> 2"
    using l by simp
  then show ?thesis
    using l by (simp add: is_peeling_pattern_iff)
qed

text \<open>
  C9. The chain of the claim is detected (\<open>chain6_peeling\<close>), but the test that decides
  is not the one the claim describes and the comment \<^verbatim>\<open># 70% decreasing\<close> of
  \<open>_is_peeling_pattern\<close> announces. The code compares the number of decreasing pairs
  with 70% of the number of amounts, which is one more than the number of pairs. On the
  amounts 100, 100, 94, 88, 82 three of the four consecutive pairs (75%) decrease by more
  than 5%; the code asks for 3.5 pairs, rejects them, and \<open>detect_peeling_chain\<close> with
  \<open>min_hops = 5\<close> finds no chain on the six-node chain that carries them.
\<close>

theorem peeling_test_off_by_one:
  "seventy_percent_of_pairs [100, 100, 94, 88, 82]
   \<and> decreasing_pairs [100, 100, 94, 88, 82] = 3
   \<and> \<not> is_peeling_pattern [100, 100, 94, 88, 82]
   \<and> detect_peeling_chain flat_start ''A'' 5 = Inr []"
  by (simp add: seventy_percent_of_pairs_def decreasing_pairs_def flat_start_def load_eval peeling_eval)

text \<open>
  C4 as stated fails. In \<open>diamond\<close> the simple paths S, A, C, D, E and S, B, C, D, E both
  have five wallets and the amounts 100, 94, 88, 82, which pass the test; they share C.
  Only the first is returned: the entry for C that came through B is dropped, because C
  is in \<open>visited\<close> by then.
\<close>

theorem peeling_shared_node_counterexample:
  "detect_peeling_chain diamond ''S'' 5 =
     Inr [\<lparr>chain_source = ''S'', chain = [''S'', ''A'', ''C'', ''D'', ''E''],
           chain_amounts = [100, 94, 88, 82], total_peeled = 282,
           chain_suspicion_score = 0.3\<rparr>]
   \<and> all_simple_paths (graph diamond) ''S'' ''E'' 4 =
       Inr [[''S'', ''A'', ''C'', ''D'', ''E''], [''S'', ''B'', ''C'', ''D'', ''E'']]
   \<and> is_peeling_pattern [100, 94, 88, 82]"
  by (simp add: diamond_def load_eval peeling_eval all_simple_paths_def succ_keys_def numeral_eq_Suc)

lemma peeling_loop_distinct:
  assumes "\<forall>(c, p, am) \<in> set queue. 1 < length p \<and> last p = c \<and> has_node g c"
    and "\<forall>c \<in> set found. chain_end c \<in> visited"
    and "distinct (map chain_end found)"
  shows "\<exists>r. peeling_loop g w mh visited queue found = Inr r \<and> distinct (map chain_end r)"
  using assms
proof (induction g w mh visited queue found rule: peeling_loop.induct)
  case (1 g wallet min_hops visited found)
  then show ?case by simp
next
  case (2 g wallet min_hops visited current path amounts queue found)
  have entry: "1 < length path" "last path = current" "has_node g current"
    using "2.prems"(1) by auto
  have rest: "\<forall>(c, p, am) \<in> set queue. 1 < length p \<and> last p = c \<and> has_node g c"
    using "2.prems"(1) by auto
  show ?case
  proof (cases "current \<in> visited")
    case True
    then show ?thesis
      using "2.IH"(1) entry rest "2.prems"(2,3) by simp
  next
    case False
    let ?new = "[(neighbor, path @ [neighbor], amounts @ [total_amount d]).
                 ((u, neighbor), d) \<leftarrow> g, u = current, neighbor \<notin> set path]"
    let ?found = "(if int (length path) \<ge> min_hops \<and> is_peeling_pattern amounts
              then found @ [\<lparr>chain_source = wallet, chain = path, chain_amounts = amounts,
                              total_peeled =
                                (if amounts \<noteq> [] then sum_list amounts - last amounts else 0),
                              chain_suspicion_score = calculate_peeling_score amounts\<rparr>]
              else found)"
    have q: "\<forall>(c, p, am) \<in> set (queue @ ?new). 1 < length p \<and> last p = c \<and> has_node g c"
      using rest entry(1) by (auto simp: has_node_def dest: edge_nodes)
    have ce: "chain_end \<lparr>chain_source = wallet, chain = path, chain_amounts = amounts,
                              total_peeled =
                                (if amounts \<noteq> [] then sum_list amounts - last amounts else 0),
                              chain_suspicion_score = calculate_peeling_score amounts\<rparr> = current"
      using entry(2) by (simp add: chain_end_def)
    have f1: "\<forall>c \<in> set ?found. chain_end c \<in> insert current visited"
      using "2.prems"(2) ce by auto
    have f2: "distinct (map chain_end ?found)"
      using "2.prems"(2,3) False ce by auto
    have "\<exists>r. peeling_loop g wallet min_hops (insert current visited) (queue @ ?new) ?found = Inr r
        \<and> distinct (map chain_end r)"
      using "2.IH"(2) False entry(3) q f1 f2 by blast
    then show ?thesis using False entry(3) by simp
  qed
qed

lemma route_tree_prefix:
  "route_tree P \<Longrightarrow> q @ r \<in> P \<Longrightarrow> q \<noteq> [] \<Longrightarrow> q \<in> P"
proof (induction r rule: rev_induct)
  case Nil
  then show ?case by simp
next
  case (snoc x r)
  have "(q @ r) @ [x] \<in> P" using snoc.prems(2) by simp
  then have "q @ r \<in> P"
    using snoc.prems(1,3) unfolding route_tree_def by blast
  then show ?case using snoc by blast
qed

lemma route_tree_upto:
  assumes "route_tree P" "p \<in> P" "x \<in> set p"
  shows "takeWhile (\<lambda>y. y \<noteq> x) p @ [x] \<in> P"
proof -
  have "dropWhile (\<lambda>y. y \<noteq> x) p \<noteq> []"
    using assms(3) by (auto simp: dropWhile_eq_Nil_conv)
  moreover from this have "hd (dropWhile (\<lambda>y. y \<noteq> x) p) = x"
    using hd_dropWhile [of "\<lambda>y. y \<noteq> x" p] by simp
  ultimately obtain r where "dropWhile (\<lambda>y. y \<noteq> x) p = x # r"
    by (cases "dropWhile (\<lambda>y. y \<noteq> x) p") auto
  then have "p = (takeWhile (\<lambda>y. y \<noteq> x) p @ [x]) @ r"
    using takeWhile_dropWhile_id [of "\<lambda>y. y \<noteq> x" p] by simp
  then have "(takeWhile (\<lambda>y. y \<noteq> x) p @ [x]) @ r \<in> P"
    using assms(2) by simp
  then show ?thesis
    using route_tree_prefix [OF assms(1)] by blast
qed

lemma route_tree_one_route:
  assumes "route_tree P" "set ps \<subseteq> P"
  shows "one_route ps"
  unfolding one_route_def
proof (intro ballI)
  fix p q x
  assume p: "p \<in> set ps" and q: "q \<in> set ps" and x: "x \<in> set p \<inter> set q"
  have "takeWhile (\<lambda>y. y \<noteq> x) p @ [x] \<in> P" "takeWhile (\<lambda>y. y \<noteq> x) q @ [x] \<in> P"
    using route_tree_upto [OF assms(1)] p q x assms(2) by auto
  moreover have "inj_on last P"
    using assms(1) by (simp add: route_tree_def)
  ultimately have "takeWhile (\<lambda>y. y \<noteq> x) p @ [x] = takeWhile (\<lambda>y. y \<noteq> x) q @ [x]"
    using inj_onD [of last P "takeWhile (\<lambda>y. y \<noteq> x) p @ [x]" "takeWhile (\<lambda>y. y \<noteq> x) q @ [x]"]
    by simp
  then show "takeWhile (\<lambda>y. y \<noteq> x) p = takeWhile (\<lambda>y. y \<noteq> x) q"
    by simp
qed

lemma route_tree_insert:
  assumes "route_tree P" "1 < length path" "last path \<notin> last ` P" "butlast path \<in> P"
  shows "route_tree (insert path P)"
proof -
  have ne: "path \<noteq> []" using assms(2) by auto
  have pc: "\<forall>p x. p @ [x] \<in> insert path P \<and> p \<noteq> [] \<longrightarrow> p \<in> insert path P"
  proof (intro allI impI)
    fix p x
    assume a: "p @ [x] \<in> insert path P \<and> p \<noteq> []"
    show "p \<in> insert path P"
    proof (cases "p @ [x] = path")
      case True
      then have "butlast path = p" by auto
      then show ?thesis using assms(4) by simp
    next
      case False
      then show ?thesis using a assms(1) unfolding route_tree_def by blast
    qed
  qed
  have inj: "inj_on last P"
    using assms(1) unfolding route_tree_def by blast
  have "last path \<notin> last ` (P - {path})"
    using assms(3) by blast
  then have inj': "inj_on last (insert path P)"
    using inj by (simp only: inj_on_insert simp_thms)
  have "\<forall>p \<in> P. p \<noteq> []"
    using assms(1) unfolding route_tree_def by blast
  then have ne': "\<forall>p \<in> insert path P. p \<noteq> []"
    using ne by blast
  show ?thesis
    unfolding route_tree_def using ne' inj' pc by blast
qed

lemma peeling_loop_route_tree:
  assumes "route_tree P" "visited = last ` P"
    and "\<forall>(c, p, am) \<in> set queue. 1 < length p \<and> last p = c \<and> has_node g c \<and> butlast p \<in> P"
    and "chain ` set found \<subseteq> P"
  shows "\<exists>r P'. peeling_loop g w mh visited queue found = Inr r
           \<and> chain ` set r \<subseteq> P' \<and> route_tree P'"
  using assms
proof (induction g w mh visited queue found arbitrary: P rule: peeling_loop.induct)
  case (1 g wallet min_hops visited found)
  then show ?case by auto
next
  case (2 g wallet min_hops visited current path amounts queue found)
  have entry: "1 < length path" "last path = current" "has_node g current" "butlast path \<in> P"
    using "2.prems"(3) by auto
  have rest: "\<forall>(c, p, am) \<in> set queue.
      1 < length p \<and> last p = c \<and> has_node g c \<and> butlast p \<in> P"
    using "2.prems"(3) by auto
  show ?case
  proof (cases "current \<in> visited")
    case True
    then show ?thesis
      using "2.IH"(1) [OF _ "2.prems"(1,2) rest "2.prems"(4)] entry by simp
  next
    case False
    let ?new = "[(neighbor, path @ [neighbor], amounts @ [total_amount d]).
                 ((u, neighbor), d) \<leftarrow> g, u = current, neighbor \<notin> set path]"
    let ?found = "(if int (length path) \<ge> min_hops \<and> is_peeling_pattern amounts
              then found @ [\<lparr>chain_source = wallet, chain = path, chain_amounts = amounts,
                              total_peeled =
                                (if amounts \<noteq> [] then sum_list amounts - last amounts else 0),
                              chain_suspicion_score = calculate_peeling_score amounts\<rparr>]
              else found)"
    let ?P = "insert path P"
    have tree: "route_tree ?P"
      using route_tree_insert [OF "2.prems"(1) entry(1) _ entry(4)] False entry(2) "2.prems"(2)
      by simp
    have vis: "insert current visited = last ` ?P"
      using "2.prems"(2) entry(2) by simp
    have q1: "\<forall>(c, p, am) \<in> set ?new. 1 < length p \<and> last p = c \<and> has_node g c"
      using entry(1) by (auto simp: has_node_def dest: edge_nodes)
    have q2: "\<forall>(c, p, am) \<in> set ?new. butlast p \<in> ?P"
      by auto
    have q3: "\<forall>(c, p, am) \<in> set queue.
        1 < length p \<and> last p = c \<and> has_node g c \<and> butlast p \<in> ?P"
      using rest by blast
    have q: "\<forall>(c, p, am) \<in> set (queue @ ?new).
        1 < length p \<and> last p = c \<and> has_node g c \<and> butlast p \<in> ?P"
      unfolding set_append using q1 q2 q3 by blast
    have f: "chain ` set ?found \<subseteq> ?P"
      using "2.prems"(4) by auto
    have "\<exists>r P'. peeling_loop g wallet min_hops (insert current visited) (queue @ ?new) ?found = Inr r
        \<and> chain ` set r \<subseteq> P' \<and> route_tree P'"
      using "2.IH"(2) [OF _ _ tree vis q f] False entry(3) by blast
    then show ?thesis using False entry(3) by simp
  qed
qed

text \<open>
  C4, amended. \<open>detect_peeling_chain\<close> keeps one set \<open>visited\<close> for the whole search,
  besides the check that a path does not repeat a wallet: an entry whose wallet was
  visited before is dropped when it is taken from the queue. So, for a wallet of the
  graph, the search returns, no two chains it returns end in the same wallet, and two
  chains it returns that pass through the same wallet have the same wallets before it: of
  the paths that reach a wallet by different routes only one, the one taken from the
  queue first, is examined and continued, and the others are pruned. For a wallet that is
  not a node the search raises \<open>NetworkXError\<close>.
\<close>

theorem peeling_chain_visited_globally:
  "if has_node (graph a) wallet
   then \<exists>found. detect_peeling_chain a wallet min_hops = Inr found
          \<and> distinct (map chain_end found)
          \<and> one_route (map chain found)
   else detect_peeling_chain a wallet min_hops = Inl NetworkXError"
proof (cases "has_node (graph a) wallet")
  case False
  then show ?thesis by (simp add: detect_peeling_chain_def)
next
  case True
  let ?new = "[(neighbor, [wallet] @ [neighbor], [] @ [total_amount d]).
                 ((u, neighbor), d) \<leftarrow> graph a, u = wallet, neighbor \<notin> set [wallet]]"
  have q: "\<forall>(c, p, am) \<in> set ?new. 1 < length p \<and> last p = c \<and> has_node (graph a) c"
    by (auto simp: has_node_def dest: edge_nodes)
  have "\<exists>r. peeling_loop (graph a) wallet min_hops {wallet} ?new [] = Inr r
      \<and> distinct (map chain_end r)"
    by (rule peeling_loop_distinct [OF q]) simp_all
  then obtain r where r: "peeling_loop (graph a) wallet min_hops {wallet} ?new [] = Inr r"
      "distinct (map chain_end r)"
    by blast
  have "\<forall>(c, p, am) \<in> set ?new. butlast p \<in> {[wallet]}"
    by auto
  then have q2: "\<forall>(c, p, am) \<in> set ?new.
      1 < length p \<and> last p = c \<and> has_node (graph a) c \<and> butlast p \<in> {[wallet]}"
    using q by blast
  have t0: "route_tree {[wallet]}"
    by (simp add: route_tree_def)
  have "\<exists>r P'. peeling_loop (graph a) wallet min_hops {wallet} ?new [] = Inr r
      \<and> chain ` set r \<subseteq> P' \<and> route_tree P'"
    by (rule peeling_loop_route_tree [OF t0 _ q2]) simp_all
  then obtain P' where tree: "chain ` set r \<subseteq> P'" "route_tree P'"
    using r(1) by auto
  have "set (map chain (sorted_desc chain_suspicion_score r)) \<subseteq> P'"
    using tree(1) by (simp add: sorted_desc_def)
  then have one: "one_route (map chain (sorted_desc chain_suspicion_score r))"
    using route_tree_one_route [OF tree(2)] by blast
  have first: "peeling_loop (graph a) wallet min_hops {} [(wallet, [wallet], [])] [] = Inr r"
    using True r(1) by (simp add: is_peeling_pattern_def)
  show ?thesis
    using True first r(2) one by (simp add: detect_peeling_chain_def distinct_map_sorted_desc)
qed

lemma fork_peeling:
  "detect_peeling_chain fork ''S'' 5 =
     Inr [\<lparr>chain_source = ''S'', chain = [''S'', ''A'', ''C'', ''D'', ''E''],
           chain_amounts = [100, 94, 88, 82], total_peeled = 282,
           chain_suspicion_score = 0.3\<rparr>,
          \<lparr>chain_source = ''S'', chain = [''S'', ''A'', ''C'', ''D'', ''F''],
           chain_amounts = [100, 94, 88, 82], total_peeled = 282,
           chain_suspicion_score = 0.3\<rparr>]"
  by (simp add: fork_def load_eval peeling_eval)

theorem peeling_chain_visited_globally_witness:
  "has_node (graph fork) ''S''
   \<and> detect_peeling_chain fork ''S'' 5 =
     Inr [\<lparr>chain_source = ''S'', chain = [''S'', ''A'', ''C'', ''D'', ''E''],
           chain_amounts = [100, 94, 88, 82], total_peeled = 282,
           chain_suspicion_score = 0.3\<rparr>,
          \<lparr>chain_source = ''S'', chain = [''S'', ''A'', ''C'', ''D'', ''F''],
           chain_amounts = [100, 94, 88, 82], total_peeled = 282,
           chain_suspicion_score = 0.3\<rparr>]
   \<and> distinct [''E'', ''F'']
   \<and> one_route [[''S'', ''A'', ''C'', ''D'', ''E''], [''S'', ''A'', ''C'', ''D'', ''F'']]
   \<and> \<not> one_route [[''S'', ''A'', ''C'', ''D'', ''E''], [''S'', ''B'', ''C'', ''D'', ''F'']]
   \<and> \<not> has_node (graph fork) ''Z''
   \<and> detect_peeling_chain fork ''Z'' 5 = Inl NetworkXError"
proof -
  have s: "has_node (graph fork) ''S''"
    by (simp add: fork_def load_eval has_node_def nodes_def fromkeys_def)
  have z: "\<not> has_node (graph fork) ''Z''"
    by (simp add: fork_def load_eval has_node_def nodes_def fromkeys_def)
  have one: "one_route [[''S'', ''A'', ''C'', ''D'', ''E''], [''S'', ''A'', ''C'', ''D'', ''F'']]"
    using s peeling_chain_visited_globally [of fork "''S''" 5] by (simp add: fork_peeling)
  have other: "\<not> one_route [[''S'', ''A'', ''C'', ''D'', ''E''], [''S'', ''B'', ''C'', ''D'', ''F'']]"
    by (simp add: one_route_def)
  have err: "detect_peeling_chain fork ''Z'' 5 = Inl NetworkXError"
    using z peeling_chain_visited_globally [of fork "''Z''" 5] by simp
  show ?thesis
    using s z one other err by (simp add: fork_peeling)
qed

section \<open>Fan-out and fan-in\<close>

lemma edges_exist_snoc:
  "edges_exist g p \<Longrightarrow> p \<noteq> [] \<Longrightarrow> has_edge g (last p) c \<Longrightarrow> edges_exist g (p @ [c])"
  by (induction g p rule: edges_exist.induct) auto

lemma simple_paths_edges_exist:
  "edges_exist g (rev visited) \<Longrightarrow> visited \<noteq> [] \<Longrightarrow> hd visited = cur
   \<Longrightarrow> p \<in> set (simple_paths g k visited cur ts) \<Longrightarrow> edges_exist g p"
proof (induction k arbitrary: visited cur p)
  case 0
  then show ?case by simp
next
  case (Suc k)
  from Suc.prems(4) obtain c where c: "c \<in> set (succ_keys g cur)" "c \<notin> set visited"
    and p: "p = rev (c # visited) \<or> p \<in> set (simple_paths g k (c # visited) c ts)"
    by (auto split: if_splits)
  have "last (rev visited) = cur"
    using Suc.prems(2,3) by (simp add: last_rev)
  then have ext: "edges_exist g (rev (c # visited))"
    using Suc.prems(1,2) c(1) by (simp add: edges_exist_snoc succ_keys_has_edge)
  from p show ?case
  proof
    assume "p = rev (c # visited)"
    then show ?thesis using ext by simp
  next
    assume "p \<in> set (simple_paths g k (c # visited) c ts)"
    then show ?thesis using Suc.IH [of "c # visited" c p] ext by simp
  qed
qed

lemma simple_paths_length:
  "p \<in> set (simple_paths g k visited cur ts) \<Longrightarrow> length p \<le> length visited + k"
proof (induction k arbitrary: visited cur p)
  case 0
  then show ?case by simp
next
  case (Suc k)
  from Suc.prems obtain c where
    "p = rev (c # visited) \<or> p \<in> set (simple_paths g k (c # visited) c ts)"
    by (auto split: if_splits)
  then show ?case using Suc.IH [of p "c # visited" c] by auto
qed

lemma analyze_edges_Inr:
  "edges_exist g p \<Longrightarrow> \<exists>r. analyze_edges g p st = Inr r"
proof (induction g p st rule: analyze_edges.induct)
  case (1 g u v path tot cnt time_span)
  from "1.prems" have e: "has_edge g u v" and rest: "edges_exist g (v # path)"
    by simp_all
  obtain d where d: "edge g u v = Inr d"
    using edge_Inr [OF e] by blast
  show ?case
    using "1.IH" [OF d refl rest] d by (simp add: Let_def)
qed (simp_all add: prod_eq_iff)

lemma analyze_pattern_Inr:
  "edges_exist (graph a) p \<Longrightarrow> \<exists>info. analyze_pattern a p = Inr info"
proof -
  assume "edges_exist (graph a) p"
  then obtain r where "analyze_edges (graph a) p (0, 0, None) = Inr r"
    using analyze_edges_Inr by blast
  then show ?thesis by (cases r) (simp add: analyze_pattern_def Let_def)
qed

lemma multi_hop_paths_Inr:
  "\<forall>p \<in> set paths. edges_exist (graph a) p
   \<Longrightarrow> \<exists>r. multi_hop_paths a w t mi paths = Inr r \<and> all_multi_hop r"
proof (induction paths)
  case Nil
  then show ?case by (simp add: all_multi_hop_def)
next
  case (Cons p paths)
  then obtain r where r: "multi_hop_paths a w t mi paths = Inr r" "all_multi_hop r"
    by auto
  have "edges_exist (graph a) p"
    using Cons.prems by simp
  then obtain info where "analyze_pattern a p = Inr info"
    using analyze_pattern_Inr by blast
  then show ?case using r by (simp add: Let_def all_multi_hop_def)
qed

lemma all_simple_paths_edges_exist:
  assumes "all_simple_paths g w t md = Inr paths"
  shows "\<forall>p \<in> set paths. edges_exist g p"
proof
  fix p
  assume "p \<in> set paths"
  then have "p = [w] \<or> (\<exists>ts. p \<in> set (simple_paths g (nat md) [w] w ts))"
    using assms by (auto simp: all_simple_paths_def Let_def split: if_splits)
  then show "edges_exist g p"
    using simple_paths_edges_exist [where visited = "[w]" and cur = w and g = g] by auto
qed

lemma multi_hop_smurfing_Inr:
  "\<exists>r. multi_hop_smurfing a w md mi targets = Inr r \<and> all_multi_hop r"
proof (induction targets)
  case Nil
  then show ?case by (simp add: all_multi_hop_def)
next
  case (Cons t targets)
  then obtain rest where rest: "multi_hop_smurfing a w md mi targets = Inr rest"
      "all_multi_hop rest"
    by auto
  show ?case
  proof (cases "all_simple_paths (graph a) w t md")
    case (Inl e)
    then show ?thesis using rest by simp
  next
    case (Inr paths)
    then obtain found where "multi_hop_paths a w t mi paths = Inr found" "all_multi_hop found"
      using all_simple_paths_edges_exist multi_hop_paths_Inr by blast
    then show ?thesis using Inr rest by (simp add: all_multi_hop_def)
  qed
qed

lemma multi_hop_paths_short:
  "\<forall>p \<in> set paths. int (length p) \<le> 1 + mi
   \<Longrightarrow> multi_hop_paths a w t mi paths = Inr []"
proof (induction paths)
  case Nil
  then show ?case by simp
next
  case (Cons p paths)
  have "length (fromkeys (butlast (tl p))) \<le> length p - 2"
    using length_fromkeys_le [of "butlast (tl p)"] by simp
  moreover have "int (length p) \<le> 1 + mi" using Cons.prems by simp
  ultimately have "3 \<le> length p \<Longrightarrow> \<not> mi \<le> int (length (fromkeys (butlast (tl p))))"
    by linarith
  then show ?case using Cons by (simp add: Let_def)
qed

lemma all_simple_paths_length:
  "all_simple_paths g w t md = Inr paths \<Longrightarrow> p \<in> set paths \<Longrightarrow> int (length p) \<le> 1 + max 0 md"
  by (auto simp: all_simple_paths_def Let_def split: if_splits dest!: simple_paths_length)

lemma multi_hop_smurfing_short:
  "md \<le> mi \<Longrightarrow> multi_hop_smurfing a w md mi targets = Inr []"
proof (induction targets)
  case Nil
  then show ?case by simp
next
  case (Cons t targets)
  show ?case
  proof (cases "all_simple_paths (graph a) w t md")
    case (Inl e)
    then show ?thesis using Cons by simp
  next
    case (Inr paths)
    show ?thesis
    proof (cases "0 \<le> mi")
      case True
      then have "\<forall>p \<in> set paths. int (length p) \<le> 1 + mi"
        using all_simple_paths_length [OF Inr] Cons.prems by fastforce
      then show ?thesis using Inr Cons by (simp add: multi_hop_paths_short)
    next
      case False
      then have "md < 0" using Cons.prems by simp
      then have "paths = []" using Inr by (auto simp: all_simple_paths_def Let_def split: if_splits)
      then show ?thesis using Inr Cons by simp
    qed
  qed
qed

lemma length_fromkeys_card: "length (fromkeys xs) = card (set xs)"
  by (simp add: fromkeys_def length_remdups_card_conv)

lemma multi_hop_paths_set:
  "multi_hop_paths a w t mi paths = Inr r \<Longrightarrow>
   pattern_path ` set r =
     {p \<in> set paths. 3 \<le> length p \<and> mi \<le> int (card (set (butlast (tl p))))
        \<and> (\<exists>info. analyze_pattern a p = Inr info \<and> 0.5 < info_suspicion_score info)}"
proof (induction paths arbitrary: r)
  case Nil
  then show ?case by auto
next
  case (Cons p paths)
  show ?case
  proof (cases "3 \<le> length p \<and> mi \<le> int (card (set (butlast (tl p))))")
    case False
    then have "multi_hop_paths a w t mi paths = Inr r"
      using Cons.prems by (auto simp: Let_def length_fromkeys_card split: if_splits)
    then show ?thesis using Cons.IH False by auto
  next
    case True
    then obtain info rest where info: "analyze_pattern a p = Inr info"
        and rest: "multi_hop_paths a w t mi paths = Inr rest"
      using Cons.prems by (auto simp: Let_def length_fromkeys_card split: sum.splits)
    show ?thesis
    proof (cases "0.5 < info_suspicion_score info")
      case True
      note big = this
      then have "pattern_path ` set r = insert p (pattern_path ` set rest)"
        using Cons.prems \<open>3 \<le> length p \<and> _\<close> info rest
        by (auto simp: Let_def length_fromkeys_card)
      then show ?thesis using Cons.IH [OF rest] \<open>3 \<le> length p \<and> _\<close> info big by auto
    next
      case False
      then have "r = rest"
        using Cons.prems \<open>3 \<le> length p \<and> _\<close> info rest
        by (auto simp: Let_def length_fromkeys_card)
      then show ?thesis using Cons.IH [OF rest] info False by auto
    qed
  qed
qed

lemma multi_hop_smurfing_set:
  "multi_hop_smurfing a w md mi targets = Inr r \<Longrightarrow>
   pattern_path ` set r =
     {p. \<exists>target paths info.
           target \<in> set targets \<and> target \<noteq> w
         \<and> all_simple_paths (graph a) w target md = Inr paths \<and> p \<in> set paths
         \<and> 3 \<le> length p \<and> mi \<le> int (card (set (butlast (tl p))))
         \<and> analyze_pattern a p = Inr info \<and> 0.5 < info_suspicion_score info}"
proof (induction targets arbitrary: r)
  case Nil
  then show ?case by auto
next
  case (Cons t targets)
  show ?case
  proof (cases "t = w")
    case True
    then have "multi_hop_smurfing a w md mi targets = Inr r"
      using Cons.prems by simp
    then show ?thesis using Cons.IH True by auto
  next
    case False
    note neq = this
    show ?thesis
    proof (cases "all_simple_paths (graph a) w t md")
      case (Inl e)
      then have "multi_hop_smurfing a w md mi targets = Inr r"
        using Cons.prems neq by simp
      then show ?thesis using Cons.IH [of r] Inl neq by auto
    next
      case (Inr paths)
      then obtain found rest where found: "multi_hop_paths a w t mi paths = Inr found"
          and rest: "multi_hop_smurfing a w md mi targets = Inr rest"
          and r: "r = found @ rest"
        using Cons.prems neq by (auto split: sum.splits)
      have "pattern_path ` set r = pattern_path ` set found \<union> pattern_path ` set rest"
        using r by auto
      then show ?thesis
        unfolding multi_hop_paths_set [OF found] Cons.IH [OF rest]
        using Inr neq by auto
    qed
  qed
qed

lemmas smurfing_eval =
  detect_fan_out_fan_in_def direct_smurfing_def illicit_sources_def in_edges_def out_edges_def
  nbunch_iter_def has_node_def nodes_def fromkeys_def edge_def edge_timestamps_def
  py_min_def py_max_def all_simple_paths_def succ_keys_def analyze_pattern_def
  sorted_desc_def mark_illicit_wallets_def

text \<open>
  C3 as stated fails. In \<open>smurf\<close> the wallet W has an inbound edge from the illicit
  wallet X and five out-edges. With \<open>max_depth = 4\<close> and \<open>min_intermediaries = 3\<close> (the
  values the application passes), \<open>detect_fan_out_fan_in\<close> returns two results: the
  direct pattern and a \<open>multi_hop_smurfing\<close> pattern for the path W, a, p, q, r. The
  path search is not bypassed.
\<close>

theorem smurfing_bypass_counterexample:
  "detect_fan_out_fan_in smurf ''W'' 4 3 =
  Inr [\<lparr>source = ''X'', intermediary = Some ''W'',
         destinations = Some [''a'', ''b'', ''c'', ''d'', ''e''],
         destination = None,
         pattern_path = [''X'', ''W'', ''a'', ''b'', ''c'', ''d'', ''e''],
         intermediaries = {''W''}, suspicion_score = 0.9,
         pattern_type = ''direct_smurfing_from_illicit'',
         metrics_total_amount = 20000, metrics_transaction_count = 5,
         metrics_path_length = 2, metrics_fan_out_count = Some 5,
         metrics_time_span_hours = 0\<rparr>,
      \<lparr>source = ''W'', intermediary = None, destinations = None,
         destination = Some ''r'',
         pattern_path = [''W'', ''a'', ''p'', ''q'', ''r''],
         intermediaries = {''a'', ''p'', ''q''}, suspicion_score = 0.8,
         pattern_type = ''multi_hop_smurfing'',
         metrics_total_amount = 16000, metrics_transaction_count = 4,
         metrics_path_length = 5, metrics_fan_out_count = None,
         metrics_time_span_hours = 0\<rparr>]"
  by (simp add: smurf_def load_eval smurfing_eval numeral_eq_Suc)

text \<open>
  C3, amended. For a wallet with an inbound edge from an illicit wallet and at least five
  out-edges, \<open>detect_fan_out_fan_in\<close> returns, and its result holds exactly one pattern of
  type \<open>direct_smurfing_from_illicit\<close>, with suspicion score 0.9 (0.95 with more than ten
  out-edges) and all destinations of the wallet. The simple-path search is not bypassed:
  the result is the direct pattern together with what the search over all nodes of the
  graph returns, sorted by score, and the search returns a \<open>multi_hop_smurfing\<close> pattern
  for exactly the qualifying paths (\<open>qualifying_paths\<close>). When
  \<open>max_depth \<le> min_intermediaries\<close> (as with the defaults 3 and 3) no path has enough
  intermediaries, and the direct pattern is the only result.
\<close>

theorem direct_smurfing_with_multi_hop:
  assumes "src \<in> set (illicit_wallets a)"
    and "has_edge (graph a) src wallet"
    and "5 \<le> length (out_edges (graph a) wallet)"
  shows "\<exists>found direct multi.
     direct_smurfing a wallet = Inr [direct]
     \<and> multi_hop_smurfing a wallet max_depth min_intermediaries (nodes (graph a)) = Inr multi
     \<and> detect_fan_out_fan_in a wallet max_depth min_intermediaries = Inr found
     \<and> found = sorted_desc suspicion_score (direct # multi)
     \<and> [p \<leftarrow> found. pattern_type p = ''direct_smurfing_from_illicit''] = [direct]
     \<and> suspicion_score direct = (if 10 < length (out_edges (graph a) wallet) then 0.95 else 0.9)
     \<and> destinations direct = Some [dest. (u, dest, d) \<leftarrow> out_edges (graph a) wallet]
     \<and> all_multi_hop multi
     \<and> pattern_path ` set multi = qualifying_paths a wallet max_depth min_intermediaries
     \<and> (max_depth \<le> min_intermediaries \<longrightarrow> multi = [])"
proof -
  let ?g = "graph a"
  let ?srcs = "illicit_sources a (in_edges ?g wallet)"
  have node: "has_node ?g wallet"
    using assms(2) has_edge_node by blast
  obtain d where "((src, wallet), d) \<in> set ?g"
    using assms(2) by (auto simp: has_edge_def)
  then have mem: "(src, wallet, d) \<in> set (in_edges ?g wallet)"
    by (force simp: in_edges_node [OF node])
  then have src: "src \<in> set ?srcs"
    using assms(1) by (force simp: illicit_sources_def)
  have ins: "0 < length (in_edges ?g wallet)" "?srcs \<noteq> []"
    using mem src by (auto simp: length_pos_if_in_set)
  have edges: "\<forall>s \<in> set ?srcs. has_edge ?g s wallet"
    using node illicit_sources_has_edge by blast
  obtain total_received where tr: "total_from ?g ?srcs wallet = Inr total_received"
    using total_from_Inr [OF edges] by blast
  obtain ts where ts: "source_timestamps ?g ?srcs wallet = Inr ts"
    using source_timestamps_Inr [OF edges] by blast
  obtain direct where direct: "direct_smurfing a wallet = Inr [direct]"
      "pattern_type direct = ''direct_smurfing_from_illicit''"
      "suspicion_score direct = (if 10 < length (out_edges ?g wallet) then 0.95 else 0.9)"
      "destinations direct = Some [dest. (u, dest, d) \<leftarrow> out_edges ?g wallet]"
    using ins assms(3) tr ts by (simp add: direct_smurfing_def Let_def)
  obtain multi where multi:
      "multi_hop_smurfing a wallet max_depth min_intermediaries (nodes ?g) = Inr multi"
      "all_multi_hop multi"
    using multi_hop_smurfing_Inr by blast
  have paths: "pattern_path ` set multi = qualifying_paths a wallet max_depth min_intermediaries"
    unfolding qualifying_paths_def by (rule multi_hop_smurfing_set [OF multi(1)])
  have none: "max_depth \<le> min_intermediaries \<longrightarrow> multi = []"
    using multi(1) multi_hop_smurfing_short [of max_depth min_intermediaries a wallet "nodes ?g"]
    by auto
  have "[p \<leftarrow> direct # multi. pattern_type p = ''direct_smurfing_from_illicit''] = [direct]"
    using direct(2) multi(2) by (auto simp: all_multi_hop_def list_all_iff filter_empty_conv)
  then have one: "[p \<leftarrow> sorted_desc suspicion_score (direct # multi).
        pattern_type p = ''direct_smurfing_from_illicit''] = [direct]"
    unfolding sorted_desc_def filter_sort by simp
  have "detect_fan_out_fan_in a wallet max_depth min_intermediaries =
      Inr (sorted_desc suspicion_score (direct # multi))"
    using direct(1) multi(1) by (simp add: detect_fan_out_fan_in_def)
  then show ?thesis
    using one direct(1,3,4) multi paths none by blast
qed

theorem direct_smurfing_with_multi_hop_witness:
  "''X'' \<in> set (illicit_wallets smurf)
   \<and> has_edge (graph smurf) ''X'' ''W''
   \<and> 5 \<le> length (out_edges (graph smurf) ''W'')
   \<and> (\<exists>found direct multi.
        direct_smurfing smurf ''W'' = Inr [direct]
        \<and> multi_hop_smurfing smurf ''W'' 3 3 (nodes (graph smurf)) = Inr multi
        \<and> detect_fan_out_fan_in smurf ''W'' 3 3 = Inr found
        \<and> found = sorted_desc suspicion_score (direct # multi)
        \<and> [p \<leftarrow> found. pattern_type p = ''direct_smurfing_from_illicit''] = [direct]
        \<and> suspicion_score direct = 0.9
        \<and> destinations direct = Some [''a'', ''b'', ''c'', ''d'', ''e'']
        \<and> multi = []
        \<and> qualifying_paths smurf ''W'' 3 3 = {})"
proof -
  have h1: "''X'' \<in> set (illicit_wallets smurf)"
    by (simp add: smurf_def mark_illicit_wallets_def fromkeys_def)
  have h2: "has_edge (graph smurf) ''X'' ''W''"
    by (simp add: smurf_def load_eval mark_illicit_wallets_def)
  have outs: "[dest. (u, dest, d) \<leftarrow> out_edges (graph smurf) ''W''] = [''a'', ''b'', ''c'', ''d'', ''e'']"
    by (simp add: smurf_def load_eval mark_illicit_wallets_def out_edges_def nbunch_iter_def
        has_node_def nodes_def fromkeys_def)
  have len: "length (out_edges (graph smurf) ''W'') = 5"
    by (simp add: smurf_def load_eval mark_illicit_wallets_def out_edges_def nbunch_iter_def
        has_node_def nodes_def fromkeys_def)
  have h3: "5 \<le> length (out_edges (graph smurf) ''W'')"
    using len by simp
  obtain found direct multi where r:
      "direct_smurfing smurf ''W'' = Inr [direct]"
      "multi_hop_smurfing smurf ''W'' 3 3 (nodes (graph smurf)) = Inr multi"
      "detect_fan_out_fan_in smurf ''W'' 3 3 = Inr found"
      "found = sorted_desc suspicion_score (direct # multi)"
      "[p \<leftarrow> found. pattern_type p = ''direct_smurfing_from_illicit''] = [direct]"
      "suspicion_score direct = (if 10 < length (out_edges (graph smurf) ''W'') then 0.95 else 0.9)"
      "destinations direct = Some [dest. (u, dest, d) \<leftarrow> out_edges (graph smurf) ''W'']"
      "pattern_path ` set multi = qualifying_paths smurf ''W'' 3 3"
      "(3::int) \<le> 3 \<longrightarrow> multi = []"
    using direct_smurfing_with_multi_hop [OF h1 h2 h3, of 3 3] by blast
  have "suspicion_score direct = 0.9" "destinations direct = Some [''a'', ''b'', ''c'', ''d'', ''e'']"
      "multi = []"
    using r(6,7,9) by (simp_all add: outs len)
  moreover from this r(8) have "qualifying_paths smurf ''W'' 3 3 = {}" by simp
  ultimately show ?thesis
    using h1 h2 h3 r(1,2,3,4,5) by blast
qed

section \<open>The suspicion breakdown\<close>

lemma closer_absent:
  "\<not> has_node g s \<or> \<not> has_node g t \<Longrightarrow> closer g s t m = Inl NodeNotFound"
  by (auto simp: closer_def has_path_def shortest_path_length_def)

lemma distance_step_absent: "\<not> has_node g w \<Longrightarrow> distance_step g w m i = m"
  by (simp add: distance_step_def closer_absent)

lemma foldl_distance_step_absent:
  "\<not> has_node g w \<Longrightarrow> foldl (distance_step g w) m is = m"
  by (induction "is" arbitrary: m) (simp_all add: distance_step_absent)

lemma distance_absent:
  "\<not> has_node (graph a) w \<Longrightarrow>
     distance_to_illicit_wallets a w = (if w \<in> set (illicit_wallets a) then 0 else - 1)"
  by (simp add: distance_to_illicit_wallets_def foldl_distance_step_absent)

lemma distance_one_node: "distance_to_illicit_wallets a w = 1 \<Longrightarrow> has_node (graph a) w"
  using distance_absent [of a w] by (cases "has_node (graph a) w") (auto split: if_splits)

lemma fan_out_component_bounds: "0 \<le> fan_out_component n \<and> fan_out_component n \<le> 0.35"
  by (simp add: fan_out_component_def)

lemma fan_in_component_bounds: "0 \<le> fan_in_component n \<and> fan_in_component n \<le> 0.28"
  by (simp add: fan_in_component_def)

lemma temporal_burst_component_bounds:
  "0 \<le> fst (temporal_burst_component ts) \<and> fst (temporal_burst_component ts) \<le> 0.17"
  by (simp add: temporal_burst_component_def Let_def)

lemma path_similarity_component_bounds:
  "0 \<le> path_similarity_component outs \<and> path_similarity_component outs \<le> 0.10"
  by (simp add: path_similarity_component_def Let_def)

lemma illicit_proximity_component_bounds:
  "case illicit_proximity_component a w (in_edges (graph a) w) of
     Inl e \<Rightarrow> False
   | Inr (score, description) \<Rightarrow>
       0 \<le> score \<and> score \<le> 0.5 \<and> (distance_to_illicit_wallets a w = - 1 \<longrightarrow> score = 0)"
proof (cases "distance_to_illicit_wallets a w = 1")
  case True
  then obtain s where "total_from (graph a) (illicit_sources a (in_edges (graph a) w)) w = Inr s"
    using distance_one_node total_from_illicit_sources by blast
  then show ?thesis using True by (simp add: illicit_proximity_component_def Let_def)
next
  case False
  then show ?thesis by (simp add: illicit_proximity_component_def Let_def)
qed

text \<open>The breakdown of the wallet W of \<open>smurf\<close>, component by component.\<close>

lemma smurf_graph: "graph smurf =
  [((''X'', ''W''), aggregate [txn ''X'' ''W'' 20000 0]),
   ((''W'', ''a''), aggregate [txn ''W'' ''a'' 4000 0]),
   ((''W'', ''b''), aggregate [txn ''W'' ''b'' 4000 0]),
   ((''W'', ''c''), aggregate [txn ''W'' ''c'' 4000 0]),
   ((''W'', ''d''), aggregate [txn ''W'' ''d'' 4000 0]),
   ((''W'', ''e''), aggregate [txn ''W'' ''e'' 4000 0]),
   ((''a'', ''p''), aggregate [txn ''a'' ''p'' 4000 0]),
   ((''p'', ''q''), aggregate [txn ''p'' ''q'' 4000 0]),
   ((''q'', ''r''), aggregate [txn ''q'' ''r'' 4000 0])]"
  by (simp add: smurf_def load_eval mark_illicit_wallets_def aggregate_def)

lemma smurf_illicit: "illicit_wallets smurf = [''X'']"
  by (simp add: smurf_def mark_illicit_wallets_def fromkeys_def)

lemma smurf_nodes: "nodes (graph smurf) = [''X'', ''W'', ''a'', ''b'', ''c'', ''d'', ''e'', ''p'', ''q'', ''r'']"
  by (simp add: smurf_graph nodes_def fromkeys_def)

lemma smurf_succ: "succ_keys (graph smurf) n =
  (if n = ''X'' then [''W''] else if n = ''W'' then [''a'', ''b'', ''c'', ''d'', ''e'']
   else if n = ''a'' then [''p''] else if n = ''p'' then [''q''] else if n = ''q'' then [''r'']
   else [])"
  by (simp add: smurf_graph succ_keys_def)

lemma smurf_distance: "distance_to_illicit_wallets smurf ''W'' = 1"
  by (simp add: distance_to_illicit_wallets_def smurf_illicit distance_step_def closer_def
      has_path_def shortest_path_length_def has_node_def smurf_nodes distance_def
      smurf_succ one_enat_def)

lemma smurf_W_in: "in_edges (graph smurf) ''W'' = [(''X'', ''W'', aggregate [txn ''X'' ''W'' 20000 0])]"
  by (simp add: in_edges_def nbunch_iter_def has_node_def smurf_nodes fromkeys_def)
    (simp add: smurf_graph)

lemma smurf_W_out: "out_edges (graph smurf) ''W'' =
   [(''W'', ''a'', aggregate [txn ''W'' ''a'' 4000 0]),
    (''W'', ''b'', aggregate [txn ''W'' ''b'' 4000 0]),
    (''W'', ''c'', aggregate [txn ''W'' ''c'' 4000 0]),
    (''W'', ''d'', aggregate [txn ''W'' ''d'' 4000 0]),
    (''W'', ''e'', aggregate [txn ''W'' ''e'' 4000 0])]"
  by (simp add: out_edges_def nbunch_iter_def has_node_def smurf_nodes fromkeys_def)
    (simp add: smurf_graph)

lemma smurf_edge_XW: "edge (graph smurf) ''X'' ''W'' = Inr (aggregate [txn ''X'' ''W'' 20000 0])"
  by (simp add: edge_def smurf_graph)

lemma smurf_fan_components: "fan_out_component 5 = 0.15" "fan_in_component 1 = 0"
  by (simp_all add: fan_out_component_def fan_in_component_def)

lemma smurf_temporal_component: "temporal_burst_component (edge_timestamps (in_edges (graph smurf) ''W'' @ out_edges (graph smurf) ''W'')) = (0, 0)"
  by (simp add: temporal_burst_component_def smurf_W_in smurf_W_out edge_timestamps_def aggregate_def txn_def entry_of_def py_min_def py_max_def Let_def)

lemma smurf_path_similarity: "path_similarity_component (out_edges (graph smurf) ''W'') = 0.10"
  by (simp add: path_similarity_component_def smurf_W_out similar_count_def aggregate_def txn_def Let_def)

lemma smurf_proximity: "illicit_proximity_component smurf ''W'' (in_edges (graph smurf) ''W'') = Inr (0.35, DirectTransferFrom 20000)"
  by (simp add: illicit_proximity_component_def smurf_distance smurf_W_in illicit_sources_def smurf_illicit smurf_edge_XW aggregate_def txn_def Let_def)

lemma smurf_W_lengths: "length (out_edges (graph smurf) ''W'') = 5" "length (in_edges (graph smurf) ''W'') = 1"
  "length (edge_timestamps (in_edges (graph smurf) ''W'' @ out_edges (graph smurf) ''W'')) = 6"
  by (simp_all add: smurf_W_in smurf_W_out edge_timestamps_def aggregate_def)

lemma smurf_breakdown: "calculate_suspicion_breakdown smurf ''W'' =
      Inr \<lparr>total_suspicion_score = 0.6,
           fan_out_score = 0.15, destination_count = 5,
           fan_in_score = 0, source_count = 1,
           temporal_burst_score = 0, burst_transaction_count = 6, time_span_hours = 0,
           path_similarity_score = 0.10,
           illicit_proximity_score = 0.35,
           distance_to_illicit = 1,
           proximity = DirectTransferFrom 20000\<rparr>"
    by (simp add: calculate_suspicion_breakdown_def Let_def smurf_W_lengths smurf_fan_components
        smurf_temporal_component smurf_path_similarity smurf_proximity smurf_distance
        fan_in_component_def)

text \<open>
  C8. For every analyzer and every wallet, \<open>calculate_suspicion_breakdown\<close> returns a
  breakdown whose five components are non-negative and at most 0.35 (fan-out), 0.28
  (fan-in), 0.17 (temporal burst), 0.10 (path similarity) and 0.50 (illicit proximity),
  and whose total is the smaller of their sum and 1.
\<close>

theorem breakdown_components_bounded:
  "\<exists>b. calculate_suspicion_breakdown a wallet = Inr b
     \<and> 0 \<le> fan_out_score b \<and> fan_out_score b \<le> 0.35
     \<and> 0 \<le> fan_in_score b \<and> fan_in_score b \<le> 0.28
     \<and> 0 \<le> temporal_burst_score b \<and> temporal_burst_score b \<le> 0.17
     \<and> 0 \<le> path_similarity_score b \<and> path_similarity_score b \<le> 0.10
     \<and> 0 \<le> illicit_proximity_score b \<and> illicit_proximity_score b \<le> 0.50
     \<and> total_suspicion_score b =
         min (fan_out_score b + fan_in_score b + temporal_burst_score b
              + path_similarity_score b + illicit_proximity_score b) 1.0"
proof -
  obtain score description where prox:
    "illicit_proximity_component a wallet (in_edges (graph a) wallet) = Inr (score, description)"
    "0 \<le> score" "score \<le> 0.5"
    using illicit_proximity_component_bounds [of a wallet]
    by (auto split: sum.splits prod.splits)
  obtain temporal time_span where temporal:
    "temporal_burst_component
       (edge_timestamps (in_edges (graph a) wallet @ out_edges (graph a) wallet)) =
     (temporal, time_span)"
    by force
  have tb: "0 \<le> temporal" "temporal \<le> 0.17"
    using temporal_burst_component_bounds
      [of "edge_timestamps (in_edges (graph a) wallet @ out_edges (graph a) wallet)"]
    by (simp_all add: temporal)
  show ?thesis
    using prox tb fan_out_component_bounds [of "length (out_edges (graph a) wallet)"]
      fan_in_component_bounds [of "length (in_edges (graph a) wallet)"]
      path_similarity_component_bounds [of "out_edges (graph a) wallet"]
    by (simp add: calculate_suspicion_breakdown_def Let_def temporal)
qed

theorem breakdown_components_bounded_witness:
  "\<exists>b. calculate_suspicion_breakdown smurf ''W'' = Inr b
     \<and> fan_out_score b = 0.15 \<and> fan_in_score b = 0 \<and> temporal_burst_score b = 0
     \<and> path_similarity_score b = 0.10 \<and> illicit_proximity_score b = 0.35
     \<and> total_suspicion_score b = 0.6"
proof -
  obtain b where b: "calculate_suspicion_breakdown smurf ''W'' = Inr b"
    using breakdown_components_bounded [of smurf "''W''"] by blast
  then show ?thesis using smurf_breakdown by auto
qed

section \<open>The sentinel of the distance in the two scores\<close>

lemma closer_no_path:
  "has_path g s t \<noteq> Inr True \<Longrightarrow> closer g s t m = Inr m \<or> (\<exists>e. closer g s t m = Inl e)"
  by (auto simp: closer_def split: sum.splits bool.splits)

lemma distance_step_no_path:
  "has_path g w i \<noteq> Inr True \<Longrightarrow> has_path g i w \<noteq> Inr True \<Longrightarrow> distance_step g w m i = m"
  using closer_no_path [of g w i m] closer_no_path [of g i w m]
  by (auto simp: distance_step_def)

lemma foldl_distance_step_no_path:
  "\<forall>i \<in> set is. has_path g w i \<noteq> Inr True \<and> has_path g i w \<noteq> Inr True
   \<Longrightarrow> foldl (distance_step g w) m is = m"
  by (induction "is" arbitrary: m) (simp_all add: distance_step_no_path)

lemma sentinel_scores_no_path:
  assumes "wallet \<notin> set (illicit_wallets a)"
    and "\<forall>illicit \<in> set (illicit_wallets a).
           has_path (graph a) wallet illicit \<noteq> Inr True
           \<and> has_path (graph a) illicit wallet \<noteq> Inr True"
  shows "distance_to_illicit_wallets a wallet = - 1
     \<and> illicit_connection_score a wallet = Inr 0.15
     \<and> calculate_suspicion_score nx a wallet =
         Inr (min (0.075 + centrality_score (calculate_wallet_centrality nx a wallet) * 0.2
                   + analyze_transaction_patterns a wallet * 0.3) 1)
     \<and> (\<exists>b. calculate_suspicion_breakdown a wallet = Inr b
           \<and> illicit_proximity_score b = 0 \<and> distance_to_illicit b = - 1)"
proof -
  have d: "distance_to_illicit_wallets a wallet = - 1"
    using assms by (simp add: distance_to_illicit_wallets_def foldl_distance_step_no_path)
  have c: "illicit_connection_score a wallet = Inr 0.15"
    by (simp add: illicit_connection_score_def d)
  have s: "calculate_suspicion_score nx a wallet =
         Inr (min (0.075 + centrality_score (calculate_wallet_centrality nx a wallet) * 0.2
                   + analyze_transaction_patterns a wallet * 0.3) 1)"
    by (simp add: calculate_suspicion_score_def c)
  have p: "illicit_proximity_component a wallet (in_edges (graph a) wallet) = Inr (0, NoConnection)"
    by (simp add: illicit_proximity_component_def d)
  have b: "\<exists>b. calculate_suspicion_breakdown a wallet = Inr b
           \<and> illicit_proximity_score b = 0 \<and> distance_to_illicit b = - 1"
    by (simp add: calculate_suspicion_breakdown_def Let_def p d split: prod.splits)
  show ?thesis using d c s b by blast
qed

lemma apart_nodes: "nodes (graph apart) = [''A'', ''B'', ''C'', ''D'']"
  by (simp add: apart_def load_eval mark_illicit_wallets_def nodes_def fromkeys_def)

lemma apart_succ: "succ_keys (graph apart) n =
  (if n = ''A'' then [''B''] else if n = ''C'' then [''D''] else [])"
  by (simp add: apart_def load_eval mark_illicit_wallets_def succ_keys_def)

lemma apart_illicit: "illicit_wallets apart = [''C'']"
  by (simp add: apart_def mark_illicit_wallets_def fromkeys_def)

lemma apart_paths:
  "has_path (graph apart) ''A'' ''C'' = Inr False" "has_path (graph apart) ''C'' ''A'' = Inr False"
  by (simp_all add: has_path_def shortest_path_length_def has_node_def apart_nodes distance_def
      apart_succ)

lemma apart_A_edges:
  "in_edges (graph apart) ''A'' = []"
  "map (\<lambda>(u, v, d). (u, v, total_amount d)) (out_edges (graph apart) ''A'') = [(''A'', ''B'', 10)]"
  by (simp_all add: in_edges_def out_edges_def nbunch_iter_def has_node_def apart_nodes fromkeys_def)
    (simp_all add: apart_def load_eval mark_illicit_wallets_def)

lemma apart_patterns: "analyze_transaction_patterns apart ''A'' = 0"
proof -
  have "length (out_edges (graph apart) ''A'') = 1"
    using apart_A_edges(2) by (metis length_map length_Cons list.size(3) One_nat_def)
  moreover have "\<not> list_ex (\<lambda>(u, dest, d). has_edge (graph apart) dest ''A'') (out_edges (graph apart) ''A'')"
  proof -
    have "list_ex (\<lambda>(u, dest, d). has_edge (graph apart) dest ''A'') (out_edges (graph apart) ''A'')
       = list_ex (\<lambda>(u, dest, t). has_edge (graph apart) dest ''A'')
           (map (\<lambda>(u, v, d). (u, v, total_amount d)) (out_edges (graph apart) ''A''))"
      by (simp add: list_ex_iff split_def)
    also have "\<dots> = False"
      unfolding apart_A_edges(2)
      by (simp add: has_edge_def apart_def load_eval mark_illicit_wallets_def)
    finally show ?thesis by simp
  qed
  ultimately show ?thesis
    by (simp add: analyze_transaction_patterns_def Let_def apart_A_edges(1))
qed

text \<open>
  C10. For a wallet that has no path of edges to or from any illicit wallet (so it is not
  illicit itself),
  \<open>_distance_to_illicit_wallets\<close> returns the sentinel \<open>-1\<close>; \<open>calculate_suspicion_score\<close>
  then gives the illicit connection the score 0.15 (the sentinel passes the test
  \<open>illicit_distance \<le> 3\<close>), which adds 0.075 to the scalar score, and the breakdown gives
  the same wallet the illicit proximity score 0.
\<close>

theorem unreachable_sentinel_scores:
  assumes "\<forall>illicit \<in> set (illicit_wallets a).
           (wallet, illicit) \<notin> (edge_rel (graph a))\<^sup>*
           \<and> (illicit, wallet) \<notin> (edge_rel (graph a))\<^sup>*"
  shows "distance_to_illicit_wallets a wallet = - 1
     \<and> illicit_connection_score a wallet = Inr 0.15
     \<and> calculate_suspicion_score nx a wallet =
         Inr (min (0.075 + centrality_score (calculate_wallet_centrality nx a wallet) * 0.2
                   + analyze_transaction_patterns a wallet * 0.3) 1)
     \<and> (\<exists>b. calculate_suspicion_breakdown a wallet = Inr b
           \<and> illicit_proximity_score b = 0 \<and> distance_to_illicit b = - 1)"
proof -
  have not_illicit: "wallet \<notin> set (illicit_wallets a)"
    using assms by auto
  have "has_path (graph a) s t \<noteq> Inr True" if "(s, t) \<notin> (edge_rel (graph a))\<^sup>*" for s t
  proof (cases "has_node (graph a) s \<and> has_node (graph a) t")
    case True
    then show ?thesis using that has_path_reachable by simp
  next
    case False
    then show ?thesis by (auto simp: has_path_def shortest_path_length_def)
  qed
  then have "\<forall>illicit \<in> set (illicit_wallets a).
           has_path (graph a) wallet illicit \<noteq> Inr True
           \<and> has_path (graph a) illicit wallet \<noteq> Inr True"
    using assms by blast
  then show ?thesis
    by (rule sentinel_scores_no_path [OF not_illicit])
qed

theorem unreachable_sentinel_scores_witness:
  "illicit_wallets apart = [''C'']
   \<and> has_node (graph apart) ''A''
   \<and> (''A'', ''C'') \<notin> (edge_rel (graph apart))\<^sup>*
   \<and> (''C'', ''A'') \<notin> (edge_rel (graph apart))\<^sup>*
   \<and> distance_to_illicit_wallets apart ''A'' = - 1
   \<and> illicit_connection_score apart ''A'' = Inr 0.15
   \<and> (\<forall>nx. calculate_suspicion_score nx apart ''A'' =
         Inr (min (0.075 + centrality_score (calculate_wallet_centrality nx apart ''A'') * 0.2) 1))
   \<and> (\<exists>b. calculate_suspicion_breakdown apart ''A'' = Inr b
           \<and> illicit_proximity_score b = 0 \<and> distance_to_illicit b = - 1)"
proof -
  have nodes: "has_node (graph apart) ''A''" "has_node (graph apart) ''C''"
    by (simp_all add: has_node_def apart_nodes)
  have no_path: "(''A'', ''C'') \<notin> (edge_rel (graph apart))\<^sup>*"
      "(''C'', ''A'') \<notin> (edge_rel (graph apart))\<^sup>*"
    using apart_paths has_path_reachable [OF nodes(1) nodes(2)]
      has_path_reachable [OF nodes(2) nodes(1)]
    by simp_all
  have h: "\<forall>illicit \<in> set (illicit_wallets apart).
           (''A'', illicit) \<notin> (edge_rel (graph apart))\<^sup>*
           \<and> (illicit, ''A'') \<notin> (edge_rel (graph apart))\<^sup>*"
    using no_path by (simp add: apart_illicit)
  show ?thesis
    using nodes(1) no_path apart_illicit unreachable_sentinel_scores [OF h]
    by (simp add: apart_patterns)
qed

section \<open>Centrality\<close>

lemma two_parts_nodes: "nodes (graph two_parts) = [''A'', ''B'', ''C'', ''D'']"
  by (simp add: two_parts_def load_eval nodes_def fromkeys_def)

lemma two_parts_succ: "succ_keys (graph two_parts) n =
  (if n = ''A'' then [''B''] else if n = ''B'' then [''A''] else if n = ''C'' then [''D''] else [])"
  by (simp add: two_parts_def load_eval succ_keys_def)

lemma two_parts_distances:
  "distance (graph two_parts) ''A'' ''A'' = Some 0"
  "distance (graph two_parts) ''B'' ''A'' = Some 1"
  "distance (graph two_parts) ''A'' ''B'' = Some 1"
  "distance (graph two_parts) ''C'' ''A'' = None"
  "distance (graph two_parts) ''D'' ''A'' = None"
  by (simp_all add: distance_def two_parts_nodes two_parts_succ)

lemma two_parts_not_strongly: "is_strongly_connected (graph two_parts) = Inr False"
  by (simp add: is_strongly_connected_def two_parts_nodes two_parts_distances)

lemma two_parts_closeness: "closeness_centrality (graph two_parts) ''A'' = Some (1 / 3)"
  by (simp add: closeness_centrality_def has_node_def two_parts_nodes two_parts_distances
      List.map_filter_simps Let_def)

lemma cycle2_nodes: "nodes (graph cycle2) = [''A'', ''B'']"
  by (simp add: cycle2_def load_eval nodes_def fromkeys_def)

lemma cycle2_succ: "succ_keys (graph cycle2) n =
  (if n = ''A'' then [''B''] else if n = ''B'' then [''A''] else [])"
  by (simp add: cycle2_def load_eval succ_keys_def)

lemma cycle2_distances:
  "distance (graph cycle2) ''A'' ''A'' = Some 0"
  "distance (graph cycle2) ''B'' ''A'' = Some 1"
  "distance (graph cycle2) ''A'' ''B'' = Some 1"
  "distance (graph cycle2) ''B'' ''B'' = Some 0"
  by (simp_all add: distance_def cycle2_nodes cycle2_succ)

lemma cycle2_strongly: "is_strongly_connected (graph cycle2) = Inr True"
  by (simp add: is_strongly_connected_def cycle2_nodes cycle2_distances)

lemma cycle2_closeness: "closeness_centrality (graph cycle2) ''A'' = Some 1"
  by (simp add: closeness_centrality_def has_node_def cycle2_nodes cycle2_distances
      List.map_filter_simps Let_def)

text \<open>
  C5 as stated fails. In \<open>two_parts\<close> the wallet A lies in the strongly connected
  component of A and B (each reaches the other), which is also all that is connected to
  A; its closeness centrality is 1/3. The graph as a whole is not strongly connected, and
  \<open>calculate_wallet_centrality\<close> returns the closeness 0 for A, whatever the library
  answers for betweenness and PageRank.
\<close>

theorem closeness_whole_graph_counterexample:
  "is_strongly_connected (graph two_parts) = Inr False
   \<and> distance (graph two_parts) ''A'' ''B'' = Some 1
   \<and> distance (graph two_parts) ''B'' ''A'' = Some 1
   \<and> closeness_centrality (graph two_parts) ''A'' = Some (1 / 3)
   \<and> (\<forall>nx. closeness (calculate_wallet_centrality nx two_parts ''A'') = 0)"
  by (simp add: two_parts_not_strongly two_parts_distances two_parts_closeness
      calculate_wallet_centrality_def zero_centrality_def Let_def split: sum.splits)

text \<open>
  C5, amended. The closeness that \<open>calculate_wallet_centrality\<close> returns is 0 unless the
  whole graph is strongly connected (and no step raised); then it is the closeness
  centrality of the wallet, 0 for a wallet that is not a node. When a step raises
  (betweenness, PageRank, or the connectivity test, which raises exactly on the empty
  graph) the result is the all-zero dict; the function never raises.
\<close>

theorem closeness_needs_strongly_connected_graph:
  "closeness (calculate_wallet_centrality nx a wallet) =
     (if \<not> isl (betweenness_centrality nx (graph a)) \<and> \<not> isl (pagerank nx (graph a))
         \<and> is_strongly_connected (graph a) = Inr True
      then get (closeness_centrality (graph a)) wallet 0 else 0)
   \<and> (isl (betweenness_centrality nx (graph a)) \<or> isl (pagerank nx (graph a))
        \<or> isl (is_strongly_connected (graph a))
       \<longrightarrow> calculate_wallet_centrality nx a wallet = zero_centrality)
   \<and> isl (is_strongly_connected (graph a)) = (graph a = [])"
  by (auto simp: calculate_wallet_centrality_def zero_centrality_def is_strongly_connected_def
      nodes_empty Let_def split: sum.splits)

theorem closeness_needs_strongly_connected_graph_witness:
  "is_strongly_connected (graph two_parts) = Inr False
   \<and> (\<forall>nx. closeness (calculate_wallet_centrality nx two_parts ''A'') = 0)
   \<and> is_strongly_connected (graph cycle2) = Inr True
   \<and> closeness (calculate_wallet_centrality nx_cycle2 cycle2 ''A'') = 1
   \<and> (\<forall>nx. calculate_wallet_centrality nx init ''A'' = zero_centrality)"
proof -
  have a: "closeness (calculate_wallet_centrality nx two_parts ''A'') = 0" for nx
    using closeness_needs_strongly_connected_graph [of nx two_parts "''A''"]
    by (simp add: two_parts_not_strongly)
  have b: "closeness (calculate_wallet_centrality nx_cycle2 cycle2 ''A'') = 1"
    using closeness_needs_strongly_connected_graph [of nx_cycle2 cycle2 "''A''"]
    by (simp add: cycle2_strongly cycle2_closeness get_def nx_cycle2_def)
  have c: "calculate_wallet_centrality nx init ''A'' = zero_centrality" for nx
    using closeness_needs_strongly_connected_graph [of nx init "''A''"]
    by (simp add: init_def)
  show ?thesis
    using a b c two_parts_not_strongly cycle2_strongly by simp
qed

section \<open>Classification\<close>

lemma out_edges_subset: "(u, v, d) \<in> set (out_edges g w) \<Longrightarrow> ((u, v), d) \<in> set g"
  by (auto simp: out_edges_def)

lemma out_edges_dest_node: "(u, v, d) \<in> set (out_edges g w) \<Longrightarrow> has_node g v"
  using out_edges_subset edge_nodes by (fastforce simp: has_node_def)

lemma succ_keys_node: "s \<in> set (succ_keys g c) \<Longrightarrow> has_node g s"
  using succ_keys_has_edge has_edge_node by blast

lemma find_chain_length_Inr:
  "has_node g current \<Longrightarrow> \<exists>n. find_chain_length g current depth max_depth = Inr n"
proof (induction g current depth max_depth rule: find_chain_length.induct)
  case (1 g current depth max_depth)
  show ?case
  proof (cases "depth \<ge> max_depth")
    case True
    then show ?thesis by simp
  next
    case False
    have succ: "successors g current = Inr (succ_keys g current)"
      using "1.prems" by (simp add: successors_def)
    show ?thesis
    proof (cases "\<exists>s. succ_keys g current = [s]")
      case True
      then obtain s where s: "succ_keys g current = [s]" by blast
      then have "has_node g s" using succ_keys_node [of s g current] by simp
      then obtain n where "find_chain_length g s (depth + 1) max_depth = Inr n"
        using "1.IH" [OF False succ s] by blast
      then show ?thesis using False succ s by simp
    next
      case nosingle: False
      then show ?thesis using False succ
        by (cases "succ_keys g current"; cases "tl (succ_keys g current)") auto
    qed
  qed
qed

lemma chain_lengths_Inr:
  "\<forall>(u, v, d) \<in> set outs. has_node g v \<Longrightarrow> \<exists>r. chain_lengths g outs = Inr r"
proof (induction outs)
  case Nil
  then show ?case by simp
next
  case (Cons e outs)
  obtain u v d where e: "e = (u, v, d)" by (cases e) auto
  then have "has_node g v" using Cons.prems by simp
  then obtain n where n: "find_chain_length g v 0 10 = Inr n"
    using find_chain_length_Inr by blast
  obtain r where "chain_lengths g outs = Inr r" using Cons by auto
  then show ?case using e n by simp
qed

lemma detect_peeling_pattern_Inr:
  "\<exists>p. detect_peeling_pattern a wallet (out_edges (graph a) wallet) = Inr p
     \<and> kind p = ''PEELING_CHAIN''"
proof -
  have "\<forall>(u, v, d) \<in> set (out_edges (graph a) wallet). has_node (graph a) v"
    using out_edges_dest_node by blast
  then obtain r where "chain_lengths (graph a) (out_edges (graph a) wallet) = Inr r"
    using chain_lengths_Inr by blast
  then show ?thesis
    by (simp add: detect_peeling_pattern_def Let_def split: prod.splits)
qed

lemma second_hop_Inr:
  "\<forall>n \<in> set ns. has_node g n \<Longrightarrow> \<exists>r. second_hop g wallet ns = Inr r"
  by (induction ns) (auto simp: successors_def)

lemma detect_cyclic_pattern_cases:
  "if has_node (graph a) wallet
   then \<exists>p. detect_cyclic_pattern a wallet = Inr p \<and> kind p = ''CYCLIC_WASH''
   else detect_cyclic_pattern a wallet = Inl NetworkXError"
proof (cases "has_node (graph a) wallet")
  case True
  have "\<forall>n \<in> set (succ_keys (graph a) wallet). has_node (graph a) n"
    using succ_keys_node by blast
  then obtain r where "second_hop (graph a) wallet (succ_keys (graph a) wallet) = Inr r"
    using second_hop_Inr by blast
  then show ?thesis using True
    by (simp add: detect_cyclic_pattern_def successors_def predecessors_def Let_def
        split: prod.splits option.splits)
next
  case False
  then show ?thesis by (simp add: detect_cyclic_pattern_def successors_def)
qed

lemma kind_fan: "kind (detect_fan_out_fan_in_pattern a wallet ins outs) = ''FAN_OUT_FAN_IN''"
  by (simp add: detect_fan_out_fan_in_pattern_def Let_def split: prod.splits)

lemma kind_temporal: "kind (detect_temporal_layering a wallet ins outs) = ''TEMPORAL_LAYERING''"
  by (simp add: detect_temporal_layering_def Let_def split: prod.splits)

lemma sorted_desc_Cons_max:
  "\<forall>y \<in> set xs. key y \<le> key x \<Longrightarrow> sorted_desc key (x # xs) = x # sorted_desc key xs"
proof -
  assume top: "\<forall>y \<in> set xs. key y \<le> key x"
  show ?thesis
  proof (cases "sort_key (\<lambda>x. - key x) xs")
    case Nil
    then show ?thesis by (simp add: sorted_desc_def)
  next
    case (Cons y ys)
    then have "y \<in> set (sort_key (\<lambda>x. - key x) xs)" by simp
    then have "key y \<le> key x" using top by simp
    then show ?thesis using Cons by (simp add: sorted_desc_def)
  qed
qed

lemma sorted_desc_descending:
  "sorted_wrt (\<lambda>p q. key q \<le> key p) (sorted_desc key xs)"
proof -
  have "sorted (map (\<lambda>x. - key x) (sort_key (\<lambda>x. - key x) xs))"
    by (rule sorted_sort_key)
  then show ?thesis
    by (simp add: sorted_desc_def sorted_map)
qed

lemma sorted_desc_same: "set (sorted_desc key xs) = set xs \<and> length (sorted_desc key xs) = length xs"
  by (simp add: sorted_desc_def)

lemma primary_two_top:
  assumes "confidence f = 0.8" "confidence p = 0.6" "confidence c \<le> 0.6" "confidence t \<le> 0.6"
  shows "primary_pattern [x \<leftarrow> [f, p, c, t]. confidence x > 0.3] =
     Pattern ''MIXED_STRATEGY'' 0.98 (kind f @ ''_'' @ kind p) (evidence f @ evidence p) [f, p]"
proof -
  let ?rest = "[x \<leftarrow> [c, t]. confidence x > 0.3]"
  have kept: "[x \<leftarrow> [f, p, c, t]. confidence x > 0.3] = f # p # ?rest"
    using assms(1,2) by simp
  have rest: "\<forall>y \<in> set ?rest. confidence y \<le> confidence p"
    using assms(2,3,4) by auto
  then have "\<forall>y \<in> set (p # ?rest). confidence y \<le> confidence f"
    using assms(1,2) by auto
  then have "sorted_desc confidence (f # p # ?rest) = f # sorted_desc confidence (p # ?rest)"
    by (rule sorted_desc_Cons_max)
  also have "\<dots> = f # p # sorted_desc confidence ?rest"
    using sorted_desc_Cons_max [OF rest] by simp
  finally have ranked: "sorted_desc confidence (f # p # ?rest) = f # p # sorted_desc confidence ?rest" .
  show ?thesis
    unfolding kept primary_pattern_def Let_def ranked
    using assms(1,2) by simp
qed

text \<open>
  C6, amended. For a wallet of the graph, \<open>classify_laundering_pattern\<close> returns. It keeps the
  results of the four detectors whose confidence is above 0.3 and ranks them by
  confidence, highest first. With none kept the result is \<open>NORMAL_ACTIVITY\<close> with
  confidence 0. With at least two kept and the second confidence above 0.5 it is
  \<open>MIXED_STRATEGY\<close>, with confidence \<open>min (top1 + top2 * 0.3) 1\<close>, the two types joined
  by an underscore as subtype, the evidence of the first followed by the evidence of the
  second, and the two results as components. Otherwise it is the first result, as the
  detector gave it. In particular, when the fan-out/fan-in detector gives 0.8, the peeling
  detector 0.6 and neither of the other two detectors more than 0.6, the result is
  \<open>MIXED_STRATEGY\<close> with confidence 0.98, made of these two results. (The counterexample
  below shows that the condition on the other two detectors is needed.)
\<close>

theorem classification_merges_detectors:
  assumes "has_node (graph a) wallet"
  shows "\<exists>fan peel cyclic temporal kept ranked.
      fan = detect_fan_out_fan_in_pattern a wallet
              (in_edges (graph a) wallet) (out_edges (graph a) wallet)
    \<and> detect_peeling_pattern a wallet (out_edges (graph a) wallet) = Inr peel
    \<and> detect_cyclic_pattern a wallet = Inr cyclic
    \<and> temporal = detect_temporal_layering a wallet
              (in_edges (graph a) wallet) (out_edges (graph a) wallet)
    \<and> kept = [p \<leftarrow> [fan, peel, cyclic, temporal]. confidence p > 0.3]
    \<and> ranked = sorted_desc confidence kept
    \<and> sorted_wrt (\<lambda>p q. confidence q \<le> confidence p) ranked
    \<and> set ranked = set kept \<and> length ranked = length kept
    \<and> classify_laundering_pattern a wallet =
        Inr (if kept = [] then Pattern ''NORMAL_ACTIVITY'' 0.0 ''NO_SUSPICIOUS_PATTERN'' [] []
             else if 2 \<le> length kept \<and> 0.5 < confidence (ranked ! 1)
             then Pattern ''MIXED_STRATEGY''
                    (min (confidence (ranked ! 0) + confidence (ranked ! 1) * 0.3) 1.0)
                    (kind (ranked ! 0) @ ''_'' @ kind (ranked ! 1))
                    (evidence (ranked ! 0) @ evidence (ranked ! 1))
                    [ranked ! 0, ranked ! 1]
             else ranked ! 0)
    \<and> (confidence fan = 0.8 \<and> confidence peel = 0.6
        \<and> confidence cyclic \<le> 0.6 \<and> confidence temporal \<le> 0.6
        \<longrightarrow> classify_laundering_pattern a wallet =
            Inr (Pattern ''MIXED_STRATEGY'' 0.98 ''FAN_OUT_FAN_IN_PEELING_CHAIN''
                   (evidence fan @ evidence peel) [fan, peel]))"
proof -
  let ?ins = "in_edges (graph a) wallet"
  let ?outs = "out_edges (graph a) wallet"
  let ?fan = "detect_fan_out_fan_in_pattern a wallet ?ins ?outs"
  let ?temporal = "detect_temporal_layering a wallet ?ins ?outs"
  obtain peel where peel: "detect_peeling_pattern a wallet ?outs = Inr peel"
      "kind peel = ''PEELING_CHAIN''"
    using detect_peeling_pattern_Inr by blast
  obtain cyclic where cyclic: "detect_cyclic_pattern a wallet = Inr cyclic"
    using detect_cyclic_pattern_cases [of a wallet] assms by auto
  let ?kept = "[p \<leftarrow> [?fan, peel, cyclic, ?temporal]. confidence p > 0.3]"
  let ?ranked = "sorted_desc confidence ?kept"
  have result: "classify_laundering_pattern a wallet = Inr (primary_pattern ?kept)"
    by (simp add: classify_laundering_pattern_def Let_def peel(1) cyclic)
  have merge: "primary_pattern ?kept =
        (if ?kept = [] then Pattern ''NORMAL_ACTIVITY'' 0.0 ''NO_SUSPICIOUS_PATTERN'' [] []
             else if 2 \<le> length ?kept \<and> 0.5 < confidence (?ranked ! 1)
             then Pattern ''MIXED_STRATEGY''
                    (min (confidence (?ranked ! 0) + confidence (?ranked ! 1) * 0.3) 1.0)
                    (kind (?ranked ! 0) @ ''_'' @ kind (?ranked ! 1))
                    (evidence (?ranked ! 0) @ evidence (?ranked ! 1))
                    [?ranked ! 0, ?ranked ! 1]
             else ?ranked ! 0)"
    unfolding primary_pattern_def Let_def sorted_desc_same [THEN conjunct2] by (rule refl)
  have inst: "confidence ?fan = 0.8 \<and> confidence peel = 0.6
        \<and> confidence cyclic \<le> 0.6 \<and> confidence ?temporal \<le> 0.6
        \<longrightarrow> classify_laundering_pattern a wallet =
            Inr (Pattern ''MIXED_STRATEGY'' 0.98 ''FAN_OUT_FAN_IN_PEELING_CHAIN''
                   (evidence ?fan @ evidence peel) [?fan, peel])"
    using primary_two_top [of ?fan peel cyclic ?temporal]
    by (simp only: result kind_fan peel(2)) simp
  show ?thesis
    using peel(1) cyclic result merge inst sorted_desc_descending [of confidence ?kept]
      sorted_desc_same [of confidence ?kept]
    by (intro exI [of _ ?fan] exI [of _ peel] exI [of _ cyclic] exI [of _ ?temporal]
        exI [of _ ?kept] exI [of _ ?ranked]) (simp only: simp_thms)
qed

text \<open>The detectors on the wallet W of \<open>layered\<close> and of \<open>mixer\<close>.\<close>

lemma layered_graph: "graph layered =
  [((''s1'', ''W''), single 100 43200), ((''s2'', ''W''), single 100 43200),
   ((''s3'', ''W''), single 100 43200), ((''s4'', ''W''), single 100 43200),
   ((''s5'', ''W''), single 100 43200),
   ((''W'', ''d0''), single 10 43200), ((''W'', ''d1''), single 20 43200),
   ((''W'', ''d2''), single 30 43200), ((''W'', ''d3''), single 40 43200),
   ((''W'', ''d4''), single 50 43200), ((''W'', ''d5''), single 60 43200),
   ((''W'', ''d6''), single 70 43200), ((''W'', ''d7''), single 80 43200),
   ((''W'', ''d8''), single 90 43200), ((''W'', ''d9''), single 100 43200),
   ((''d0'', ''c1''), single 10 43200), ((''c1'', ''c2''), single 10 43200),
   ((''c2'', ''c3''), single 10 43200), ((''c3'', ''c4''), single 10 43200),
   ((''c4'', ''c5''), single 10 43200)]"
  by (simp add: layered_def load_eval single_def)

lemma layered_nodes: "nodes (graph layered) =
  [''s1'', ''W'', ''s2'', ''s3'', ''s4'', ''s5'', ''d0'', ''d1'', ''d2'', ''d3'', ''d4'', ''d5'',
   ''d6'', ''d7'', ''d8'', ''d9'', ''c1'', ''c2'', ''c3'', ''c4'', ''c5'']"
  by (simp add: layered_graph nodes_def fromkeys_def)

lemma layered_W_node: "has_node (graph layered) ''W''"
  by (simp add: has_node_def layered_nodes)

lemma layered_in: "in_edges (graph layered) ''W'' =
  [(''s1'', ''W'', single 100 43200), (''s2'', ''W'', single 100 43200),
   (''s3'', ''W'', single 100 43200), (''s4'', ''W'', single 100 43200),
   (''s5'', ''W'', single 100 43200)]"
  by (simp add: in_edges_node [OF layered_W_node]) (simp add: layered_graph)

lemma layered_out: "out_edges (graph layered) ''W'' =
  [(''W'', ''d0'', single 10 43200), (''W'', ''d1'', single 20 43200),
   (''W'', ''d2'', single 30 43200), (''W'', ''d3'', single 40 43200),
   (''W'', ''d4'', single 50 43200), (''W'', ''d5'', single 60 43200),
   (''W'', ''d6'', single 70 43200), (''W'', ''d7'', single 80 43200),
   (''W'', ''d8'', single 90 43200), (''W'', ''d9'', single 100 43200)]"
  by (simp add: out_edges_node [OF layered_W_node]) (simp add: layered_graph)

lemma layered_succ: "succ_keys (graph layered) n =
  (if n = ''W'' then [''d0'', ''d1'', ''d2'', ''d3'', ''d4'', ''d5'', ''d6'', ''d7'', ''d8'', ''d9'']
   else if n \<in> {''s1'', ''s2'', ''s3'', ''s4'', ''s5''} then [''W'']
   else if n = ''d0'' then [''c1''] else if n = ''c1'' then [''c2'']
   else if n = ''c2'' then [''c3''] else if n = ''c3'' then [''c4'']
   else if n = ''c4'' then [''c5''] else [])"
  by (simp add: layered_graph succ_keys_def)

lemma layered_pred: "pred_keys (graph layered) ''W'' = [''s1'', ''s2'', ''s3'', ''s4'', ''s5'']"
  by (simp add: layered_graph pred_keys_def)

lemma graph_load_transactions_illicit:
  "illicit_wallets (load_transactions txns a) = illicit_wallets a"
  by (simp add: load_transactions_def)

lemma illicit_loaded: "illicit_wallets (loaded batches) = []"
proof -
  have "illicit_wallets (foldl (\<lambda>a batch. load_transactions batch a) a batches) = illicit_wallets a"
    for a
    by (induction batches arbitrary: a) (simp_all add: graph_load_transactions_illicit)
  then show ?thesis by (simp add: loaded_def init_def)
qed

lemma layered_illicit: "illicit_wallets layered = []"
  by (simp add: layered_def illicit_loaded)

lemma layered_fan:
  "detect_fan_out_fan_in_pattern layered ''W''
     (in_edges (graph layered) ''W'') (out_edges (graph layered) ''W'') =
   Pattern ''FAN_OUT_FAN_IN'' 0.8 ''MULTI_LAYER_REAGGREGATION''
     [HighFanOut 10, Reaggregation 5 10] []"
  by (simp add: layered_in layered_out detect_fan_out_fan_in_pattern_def similar_count_def
      single_def illicit_sources_def layered_illicit Let_def)

lemma layered_chain:
  "find_chain_length (graph layered) ''d0'' 0 10 = Inr 5"
  "n \<in> {''d1'', ''d2'', ''d3'', ''d4'', ''d5'', ''d6'', ''d7'', ''d8'', ''d9''}
   \<Longrightarrow> find_chain_length (graph layered) n 0 10 = Inr 0"
  by (auto simp: successors_def has_node_def layered_nodes layered_succ)

lemma layered_chain_lengths:
  "chain_lengths (graph layered) (out_edges (graph layered) ''W'') = Inr [5]"
  by (simp add: layered_out layered_chain del: find_chain_length.simps)

lemma layered_peel:
  "detect_peeling_pattern layered ''W'' (out_edges (graph layered) ''W'') =
   Inr (Pattern ''PEELING_CHAIN'' 0.6 ''SEQUENTIAL_PEELING'' [LongChain 5] [])"
proof -
  have len: "length (out_edges (graph layered) ''W'') = 10" "out_edges (graph layered) ''W'' \<noteq> []"
    by (simp_all add: layered_out)
  show ?thesis
    by (simp add: detect_peeling_pattern_def layered_chain_lengths len py_max_def Let_def)
qed

lemma layered_cyclic:
  "detect_cyclic_pattern layered ''W'' =
   Inr (Pattern ''CYCLIC_WASH'' 0 ''REPETITIVE_PATTERN'' [] [])"
proof -
  have hop: "second_hop (graph layered) ''W'' (succ_keys (graph layered) ''W'') = Inr None"
    by (simp add: layered_succ successors_def has_node_def layered_nodes)
  have dests: "[dest. (u, dest, d) \<leftarrow> out_edges (graph layered) ''W''] =
      [''d0'', ''d1'', ''d2'', ''d3'', ''d4'', ''d5'', ''d6'', ''d7'', ''d8'', ''d9'']"
    by (simp add: layered_out)
  have trips: "[n \<leftarrow> fromkeys (succ_keys (graph layered) ''W''). n \<in> set (pred_keys (graph layered) ''W'')] = []"
    by (simp add: layered_succ layered_pred fromkeys_def)
  show ?thesis
    by (simp add: detect_cyclic_pattern_def successors_def predecessors_def layered_W_node
        hop dests trips [unfolded fromkeys_def] Let_def fromkeys_def)
qed

lemma layered_timestamps:
  "edge_timestamps (in_edges (graph layered) ''W'' @ out_edges (graph layered) ''W'') =
     replicate 15 43200"
  by (simp add: layered_in layered_out edge_timestamps_def single_def numeral_eq_Suc)

lemma layered_temporal:
  "detect_temporal_layering layered ''W''
     (in_edges (graph layered) ''W'') (out_edges (graph layered) ''W'') =
   Pattern ''TEMPORAL_LAYERING'' 0.4 ''RAPID_BURST'' [RapidLayering 15 0] []"
  unfolding detect_temporal_layering_def layered_timestamps
  by (simp add: numeral_eq_Suc hour_def Let_def upt_rec)

lemma mixer_graph: "graph mixer =
  [((''W'', ''X''), single 100 0), ((''X'', ''W''), single 10 0), ((''W'', ''Y''), single 50 0),
   ((''Y'', ''p''), single 50 0), ((''p'', ''q''), single 50 0), ((''q'', ''r''), single 50 0)]"
  by (simp add: mixer_def load_eval single_def)

lemma mixer_nodes: "nodes (graph mixer) = [''W'', ''X'', ''Y'', ''p'', ''q'', ''r'']"
  by (simp add: mixer_graph nodes_def fromkeys_def)

lemma mixer_W_node: "has_node (graph mixer) ''W''"
  by (simp add: has_node_def mixer_nodes)

lemma mixer_illicit: "illicit_wallets mixer = []"
  by (simp add: mixer_def illicit_loaded)

lemma mixer_in: "in_edges (graph mixer) ''W'' = [(''X'', ''W'', single 10 0)]"
  by (simp add: in_edges_node [OF mixer_W_node]) (simp add: mixer_graph)

lemma mixer_out: "out_edges (graph mixer) ''W'' =
  [(''W'', ''X'', single 100 0), (''W'', ''Y'', single 50 0)]"
  by (simp add: out_edges_node [OF mixer_W_node]) (simp add: mixer_graph)

lemma mixer_succ: "succ_keys (graph mixer) n =
  (if n = ''W'' then [''X'', ''Y''] else if n = ''X'' then [''W'']
   else if n = ''Y'' then [''p''] else if n = ''p'' then [''q'']
   else if n = ''q'' then [''r''] else [])"
  by (simp add: mixer_graph succ_keys_def)

lemma mixer_pred: "pred_keys (graph mixer) ''W'' = [''X'']"
  by (simp add: mixer_graph pred_keys_def)

lemma mixer_fan:
  "detect_fan_out_fan_in_pattern mixer ''W''
     (in_edges (graph mixer) ''W'') (out_edges (graph mixer) ''W'') =
   Pattern ''FAN_OUT_FAN_IN'' 0 ''SIMPLE_FAN_OUT'' [] []"
  by (simp add: mixer_in mixer_out detect_fan_out_fan_in_pattern_def similar_count_def
      single_def illicit_sources_def mixer_illicit Let_def)

lemma mixer_chain_lengths:
  "chain_lengths (graph mixer) (out_edges (graph mixer) ''W'') = Inr [1, 3]"
  by (simp add: mixer_out successors_def has_node_def mixer_nodes mixer_succ)

lemma mixer_peel:
  "detect_peeling_pattern mixer ''W'' (out_edges (graph mixer) ''W'') =
   Inr (Pattern ''PEELING_CHAIN'' 0.8 ''SEQUENTIAL_PEELING''
          [MediumChain 3, SequentialPeeling, LinearProgression 2] [])"
proof -
  have outs: "length (out_edges (graph mixer) ''W'') = 2" "out_edges (graph mixer) ''W'' \<noteq> []"
      "[total_amount d. (u, v, d) \<leftarrow> out_edges (graph mixer) ''W''] = [100, 50]"
    by (simp_all add: mixer_out single_def)
  show ?thesis
    by (simp add: detect_peeling_pattern_def mixer_chain_lengths outs py_max_def Let_def
        del: find_chain_length.simps)
qed

lemma mixer_cyclic:
  "detect_cyclic_pattern mixer ''W'' =
   Inr (Pattern ''CYCLIC_WASH'' 0.7 ''CIRCULAR_WASH''
          [DirectRoundTrips 1, TwoHopCycle ''X''] [])"
proof -
  have hop: "second_hop (graph mixer) ''W'' (succ_keys (graph mixer) ''W'') = Inr (Some ''X'')"
    by (simp add: mixer_succ successors_def has_node_def mixer_nodes)
  have dests: "[dest. (u, dest, d) \<leftarrow> out_edges (graph mixer) ''W''] = [''X'', ''Y'']"
    by (simp add: mixer_out)
  have trips: "[n \<leftarrow> fromkeys (succ_keys (graph mixer) ''W''). n \<in> set (pred_keys (graph mixer) ''W'')] = [''X'']"
    by (simp add: mixer_succ mixer_pred fromkeys_def)
  show ?thesis
    by (simp add: detect_cyclic_pattern_def successors_def predecessors_def mixer_W_node
        hop dests trips [unfolded fromkeys_def] Let_def fromkeys_def)
qed

lemma mixer_temporal:
  "detect_temporal_layering mixer ''W''
     (in_edges (graph mixer) ''W'') (out_edges (graph mixer) ''W'') =
   Pattern ''TEMPORAL_LAYERING'' 0 ''INSUFFICIENT_DATA'' [] []"
  by (simp add: detect_temporal_layering_def mixer_in mixer_out edge_timestamps_def single_def)

theorem classification_merges_detectors_witness:
  "has_node (graph layered) ''W''
   \<and> classify_laundering_pattern layered ''W'' =
       Inr (Pattern ''MIXED_STRATEGY'' 0.98 ''FAN_OUT_FAN_IN_PEELING_CHAIN''
              [HighFanOut 10, Reaggregation 5 10, LongChain 5]
              [Pattern ''FAN_OUT_FAN_IN'' 0.8 ''MULTI_LAYER_REAGGREGATION''
                 [HighFanOut 10, Reaggregation 5 10] [],
               Pattern ''PEELING_CHAIN'' 0.6 ''SEQUENTIAL_PEELING'' [LongChain 5] []])
   \<and> has_node (graph mixer) ''W''
   \<and> classify_laundering_pattern mixer ''W'' =
       Inr (Pattern ''MIXED_STRATEGY'' 1 ''PEELING_CHAIN_CYCLIC_WASH''
              [MediumChain 3, SequentialPeeling, LinearProgression 2,
               DirectRoundTrips 1, TwoHopCycle ''X'']
              [Pattern ''PEELING_CHAIN'' 0.8 ''SEQUENTIAL_PEELING''
                 [MediumChain 3, SequentialPeeling, LinearProgression 2] [],
               Pattern ''CYCLIC_WASH'' 0.7 ''CIRCULAR_WASH''
                 [DirectRoundTrips 1, TwoHopCycle ''X''] []])"
proof -
  obtain fan peel cyclic temporal where l:
      "fan = detect_fan_out_fan_in_pattern layered ''W''
              (in_edges (graph layered) ''W'') (out_edges (graph layered) ''W'')"
      "detect_peeling_pattern layered ''W'' (out_edges (graph layered) ''W'') = Inr peel"
      "detect_cyclic_pattern layered ''W'' = Inr cyclic"
      "temporal = detect_temporal_layering layered ''W''
              (in_edges (graph layered) ''W'') (out_edges (graph layered) ''W'')"
      "confidence fan = 0.8 \<and> confidence peel = 0.6
        \<and> confidence cyclic \<le> 0.6 \<and> confidence temporal \<le> 0.6
        \<longrightarrow> classify_laundering_pattern layered ''W'' =
            Inr (Pattern ''MIXED_STRATEGY'' 0.98 ''FAN_OUT_FAN_IN_PEELING_CHAIN''
                   (evidence fan @ evidence peel) [fan, peel])"
    using classification_merges_detectors [OF layered_W_node] by blast
  have lv: "fan = Pattern ''FAN_OUT_FAN_IN'' 0.8 ''MULTI_LAYER_REAGGREGATION''
                 [HighFanOut 10, Reaggregation 5 10] []"
      "peel = Pattern ''PEELING_CHAIN'' 0.6 ''SEQUENTIAL_PEELING'' [LongChain 5] []"
      "cyclic = Pattern ''CYCLIC_WASH'' 0 ''REPETITIVE_PATTERN'' [] []"
      "temporal = Pattern ''TEMPORAL_LAYERING'' 0.4 ''RAPID_BURST'' [RapidLayering 15 0] []"
    using l(1,2,3,4) by (simp_all add: layered_fan layered_peel layered_cyclic layered_temporal)
  have first: "classify_laundering_pattern layered ''W'' =
       Inr (Pattern ''MIXED_STRATEGY'' 0.98 ''FAN_OUT_FAN_IN_PEELING_CHAIN''
              [HighFanOut 10, Reaggregation 5 10, LongChain 5]
              [Pattern ''FAN_OUT_FAN_IN'' 0.8 ''MULTI_LAYER_REAGGREGATION''
                 [HighFanOut 10, Reaggregation 5 10] [],
               Pattern ''PEELING_CHAIN'' 0.6 ''SEQUENTIAL_PEELING'' [LongChain 5] []])"
    using l(5) unfolding lv by simp
  obtain fan' peel' cyclic' temporal' kept ranked where m:
      "fan' = detect_fan_out_fan_in_pattern mixer ''W''
              (in_edges (graph mixer) ''W'') (out_edges (graph mixer) ''W'')"
      "detect_peeling_pattern mixer ''W'' (out_edges (graph mixer) ''W'') = Inr peel'"
      "detect_cyclic_pattern mixer ''W'' = Inr cyclic'"
      "temporal' = detect_temporal_layering mixer ''W''
              (in_edges (graph mixer) ''W'') (out_edges (graph mixer) ''W'')"
      "kept = [p \<leftarrow> [fan', peel', cyclic', temporal']. confidence p > 0.3]"
      "ranked = sorted_desc confidence kept"
      "classify_laundering_pattern mixer ''W'' =
        Inr (if kept = [] then Pattern ''NORMAL_ACTIVITY'' 0.0 ''NO_SUSPICIOUS_PATTERN'' [] []
             else if 2 \<le> length kept \<and> 0.5 < confidence (ranked ! 1)
             then Pattern ''MIXED_STRATEGY''
                    (min (confidence (ranked ! 0) + confidence (ranked ! 1) * 0.3) 1.0)
                    (kind (ranked ! 0) @ ''_'' @ kind (ranked ! 1))
                    (evidence (ranked ! 0) @ evidence (ranked ! 1))
                    [ranked ! 0, ranked ! 1]
             else ranked ! 0)"
    using classification_merges_detectors [OF mixer_W_node] by blast
  have mv: "fan' = Pattern ''FAN_OUT_FAN_IN'' 0 ''SIMPLE_FAN_OUT'' [] []"
      "peel' = Pattern ''PEELING_CHAIN'' 0.8 ''SEQUENTIAL_PEELING''
                 [MediumChain 3, SequentialPeeling, LinearProgression 2] []"
      "cyclic' = Pattern ''CYCLIC_WASH'' 0.7 ''CIRCULAR_WASH''
                 [DirectRoundTrips 1, TwoHopCycle ''X''] []"
      "temporal' = Pattern ''TEMPORAL_LAYERING'' 0 ''INSUFFICIENT_DATA'' [] []"
    using m(1,2,3,4) by (simp_all add: mixer_fan mixer_peel mixer_cyclic mixer_temporal)
  have kept: "kept = [peel', cyclic']"
    unfolding m(5) mv by simp
  have ranked: "ranked = [peel', cyclic']"
    unfolding m(6) kept mv by (simp add: sorted_desc_def)
  have second: "classify_laundering_pattern mixer ''W'' =
       Inr (Pattern ''MIXED_STRATEGY'' 1 ''PEELING_CHAIN_CYCLIC_WASH''
              [MediumChain 3, SequentialPeeling, LinearProgression 2,
               DirectRoundTrips 1, TwoHopCycle ''X'']
              [Pattern ''PEELING_CHAIN'' 0.8 ''SEQUENTIAL_PEELING''
                 [MediumChain 3, SequentialPeeling, LinearProgression 2] [],
               Pattern ''CYCLIC_WASH'' 0.7 ''CIRCULAR_WASH''
                 [DirectRoundTrips 1, TwoHopCycle ''X''] []])"
    unfolding m(7) ranked kept mv by simp
  show ?thesis
    using layered_W_node mixer_W_node first second by blast
qed

text \<open>The detectors on the wallet W of \<open>layered_back\<close>.\<close>

lemma layered_back_graph: "graph layered_back =
  [((''s1'', ''W''), single 100 43200), ((''s2'', ''W''), single 100 43200),
   ((''s3'', ''W''), single 100 43200), ((''s4'', ''W''), single 100 43200),
   ((''s5'', ''W''), single 100 43200),
   ((''W'', ''d0''), single 10 43200), ((''W'', ''d1''), single 20 43200),
   ((''W'', ''d2''), single 30 43200), ((''W'', ''d3''), single 40 43200),
   ((''W'', ''d4''), single 50 43200), ((''W'', ''d5''), single 60 43200),
   ((''W'', ''d6''), single 70 43200), ((''W'', ''d7''), single 80 43200),
   ((''W'', ''d8''), single 90 43200), ((''W'', ''d9''), single 100 43200),
   ((''d0'', ''c1''), single 10 43200), ((''c1'', ''c2''), single 10 43200),
   ((''c2'', ''c3''), single 10 43200), ((''c3'', ''c4''), single 10 43200),
   ((''c4'', ''c5''), single 10 43200), ((''d1'', ''W''), single 20 43200)]"
  by (simp add: layered_back_def load_eval single_def)

lemma layered_back_nodes: "nodes (graph layered_back) =
  [''s1'', ''W'', ''s2'', ''s3'', ''s4'', ''s5'', ''d0'', ''d1'', ''d2'', ''d3'', ''d4'', ''d5'',
   ''d6'', ''d7'', ''d8'', ''d9'', ''c1'', ''c2'', ''c3'', ''c4'', ''c5'']"
  by (simp add: layered_back_graph nodes_def fromkeys_def)

lemma layered_back_W_node: "has_node (graph layered_back) ''W''"
  by (simp add: has_node_def layered_back_nodes)

lemma layered_back_in: "in_edges (graph layered_back) ''W'' =
  [(''s1'', ''W'', single 100 43200), (''s2'', ''W'', single 100 43200),
   (''s3'', ''W'', single 100 43200), (''s4'', ''W'', single 100 43200),
   (''s5'', ''W'', single 100 43200), (''d1'', ''W'', single 20 43200)]"
  by (simp add: in_edges_node [OF layered_back_W_node]) (simp add: layered_back_graph)

lemma layered_back_out: "out_edges (graph layered_back) ''W'' =
  [(''W'', ''d0'', single 10 43200), (''W'', ''d1'', single 20 43200),
   (''W'', ''d2'', single 30 43200), (''W'', ''d3'', single 40 43200),
   (''W'', ''d4'', single 50 43200), (''W'', ''d5'', single 60 43200),
   (''W'', ''d6'', single 70 43200), (''W'', ''d7'', single 80 43200),
   (''W'', ''d8'', single 90 43200), (''W'', ''d9'', single 100 43200)]"
  by (simp add: out_edges_node [OF layered_back_W_node]) (simp add: layered_back_graph)

lemma layered_back_succ: "succ_keys (graph layered_back) n =
  (if n = ''W'' then [''d0'', ''d1'', ''d2'', ''d3'', ''d4'', ''d5'', ''d6'', ''d7'', ''d8'', ''d9'']
   else if n \<in> {''s1'', ''s2'', ''s3'', ''s4'', ''s5'', ''d1''} then [''W'']
   else if n = ''d0'' then [''c1''] else if n = ''c1'' then [''c2'']
   else if n = ''c2'' then [''c3''] else if n = ''c3'' then [''c4'']
   else if n = ''c4'' then [''c5''] else [])"
  by (simp add: layered_back_graph succ_keys_def)

lemma layered_back_pred:
  "pred_keys (graph layered_back) ''W'' = [''s1'', ''s2'', ''s3'', ''s4'', ''s5'', ''d1'']"
  by (simp add: layered_back_graph pred_keys_def)

lemma layered_back_illicit: "illicit_wallets layered_back = []"
  by (simp add: layered_back_def illicit_loaded)

lemma layered_back_fan:
  "detect_fan_out_fan_in_pattern layered_back ''W''
     (in_edges (graph layered_back) ''W'') (out_edges (graph layered_back) ''W'') =
   Pattern ''FAN_OUT_FAN_IN'' 0.8 ''MULTI_LAYER_REAGGREGATION''
     [HighFanOut 10, Reaggregation 6 10] []"
  by (simp add: layered_back_in layered_back_out detect_fan_out_fan_in_pattern_def
      similar_count_def single_def illicit_sources_def layered_back_illicit Let_def)

lemma layered_back_chain:
  "find_chain_length (graph layered_back) ''d0'' 0 10 = Inr 5"
  "find_chain_length (graph layered_back) ''d1'' 0 10 = Inr 1"
  "n \<in> {''d2'', ''d3'', ''d4'', ''d5'', ''d6'', ''d7'', ''d8'', ''d9''}
   \<Longrightarrow> find_chain_length (graph layered_back) n 0 10 = Inr 0"
  by (auto simp: successors_def has_node_def layered_back_nodes layered_back_succ)

lemma layered_back_chain_lengths:
  "chain_lengths (graph layered_back) (out_edges (graph layered_back) ''W'') = Inr [5, 1]"
  by (simp add: layered_back_out layered_back_chain del: find_chain_length.simps)

lemma layered_back_peel:
  "detect_peeling_pattern layered_back ''W'' (out_edges (graph layered_back) ''W'') =
   Inr (Pattern ''PEELING_CHAIN'' 0.6 ''SEQUENTIAL_PEELING'' [LongChain 5] [])"
proof -
  have len: "length (out_edges (graph layered_back) ''W'') = 10"
      "out_edges (graph layered_back) ''W'' \<noteq> []"
    by (simp_all add: layered_back_out)
  show ?thesis
    by (simp add: detect_peeling_pattern_def layered_back_chain_lengths len py_max_def Let_def)
qed

lemma layered_back_cyclic:
  "detect_cyclic_pattern layered_back ''W'' =
   Inr (Pattern ''CYCLIC_WASH'' 0.7 ''CIRCULAR_WASH''
          [DirectRoundTrips 1, TwoHopCycle ''d1''] [])"
proof -
  have hop: "second_hop (graph layered_back) ''W'' (succ_keys (graph layered_back) ''W'') =
      Inr (Some ''d1'')"
    by (simp add: layered_back_succ successors_def has_node_def layered_back_nodes)
  have dests: "[dest. (u, dest, d) \<leftarrow> out_edges (graph layered_back) ''W''] =
      [''d0'', ''d1'', ''d2'', ''d3'', ''d4'', ''d5'', ''d6'', ''d7'', ''d8'', ''d9'']"
    by (simp add: layered_back_out)
  have trips: "[n \<leftarrow> fromkeys (succ_keys (graph layered_back) ''W'').
                  n \<in> set (pred_keys (graph layered_back) ''W'')] = [''d1'']"
    by (simp add: layered_back_succ layered_back_pred fromkeys_def)
  show ?thesis
    by (simp add: detect_cyclic_pattern_def successors_def predecessors_def layered_back_W_node
        hop dests trips [unfolded fromkeys_def] Let_def fromkeys_def)
qed

lemma layered_back_timestamps:
  "edge_timestamps (in_edges (graph layered_back) ''W'' @ out_edges (graph layered_back) ''W'') =
     replicate 16 43200"
  by (simp add: layered_back_in layered_back_out edge_timestamps_def single_def numeral_eq_Suc)

lemma layered_back_temporal:
  "detect_temporal_layering layered_back ''W''
     (in_edges (graph layered_back) ''W'') (out_edges (graph layered_back) ''W'') =
   Pattern ''TEMPORAL_LAYERING'' 0.4 ''RAPID_BURST'' [RapidLayering 16 0] []"
  unfolding detect_temporal_layering_def layered_back_timestamps
  by (simp add: numeral_eq_Suc hour_def Let_def upt_rec)

text \<open>
  C6 as stated fails in its last sentence. All four detectors run on the wallet, and the
  two results that are merged are the two of highest confidence, whichever detectors gave
  them. On the wallet W of \<open>layered_back\<close> the fan-out/fan-in detector gives 0.8 and the
  peeling detector 0.6, as in the claim, but the cycle detector gives 0.7 (d1 sends back
  to W) and ranks second: the result is \<open>MIXED_STRATEGY\<close> of the fan-out/fan-in and
  the cycle results, with confidence \<open>min (0.8 + 0.7 * 0.3) 1 = 1\<close>, not 0.98.
\<close>

theorem classification_third_detector_counterexample:
  "confidence (detect_fan_out_fan_in_pattern layered_back ''W''
      (in_edges (graph layered_back) ''W'') (out_edges (graph layered_back) ''W'')) = 0.8
   \<and> detect_peeling_pattern layered_back ''W'' (out_edges (graph layered_back) ''W'') =
       Inr (Pattern ''PEELING_CHAIN'' 0.6 ''SEQUENTIAL_PEELING'' [LongChain 5] [])
   \<and> classify_laundering_pattern layered_back ''W'' =
       Inr (Pattern ''MIXED_STRATEGY'' 1 ''FAN_OUT_FAN_IN_CYCLIC_WASH''
              [HighFanOut 10, Reaggregation 6 10, DirectRoundTrips 1, TwoHopCycle ''d1'']
              [Pattern ''FAN_OUT_FAN_IN'' 0.8 ''MULTI_LAYER_REAGGREGATION''
                 [HighFanOut 10, Reaggregation 6 10] [],
               Pattern ''CYCLIC_WASH'' 0.7 ''CIRCULAR_WASH''
                 [DirectRoundTrips 1, TwoHopCycle ''d1''] []])"
proof -
  have "classify_laundering_pattern layered_back ''W'' =
       Inr (Pattern ''MIXED_STRATEGY'' 1 ''FAN_OUT_FAN_IN_CYCLIC_WASH''
              [HighFanOut 10, Reaggregation 6 10, DirectRoundTrips 1, TwoHopCycle ''d1'']
              [Pattern ''FAN_OUT_FAN_IN'' 0.8 ''MULTI_LAYER_REAGGREGATION''
                 [HighFanOut 10, Reaggregation 6 10] [],
               Pattern ''CYCLIC_WASH'' 0.7 ''CIRCULAR_WASH''
                 [DirectRoundTrips 1, TwoHopCycle ''d1''] []])"
    unfolding classify_laundering_pattern_def Let_def layered_back_fan layered_back_peel
      layered_back_cyclic layered_back_temporal
    by (simp add: primary_pattern_def sorted_desc_def)
  then show ?thesis
    by (simp add: layered_back_fan layered_back_peel)
qed

section \<open>Wallets that are not in the graph\<close>

lemma illicit_connection_score_absent:
  "\<not> has_node (graph a) wallet \<Longrightarrow> \<not> isl (illicit_connection_score a wallet)"
  by (simp add: illicit_connection_score_def distance_absent)

text \<open>
  C1. The claim (every analysis returns a neutral result for a wallet that is not a node,
  and none raises) does not hold of the code: for every such wallet
  \<open>get_wallet_summary\<close>, \<open>classify_laundering_pattern\<close> and \<open>detect_peeling_chain\<close> raise
  \<open>NetworkXError\<close>, from \<open>predecessors\<close>, \<open>successors\<close> and \<open>neighbors\<close>.
\<close>

theorem absent_wallet_raises:
  assumes "\<not> has_node (graph a) wallet"
  shows "get_wallet_summary nx a wallet = Inl NetworkXError
    \<and> classify_laundering_pattern a wallet = Inl NetworkXError
    \<and> detect_peeling_chain a wallet min_hops = Inl NetworkXError"
proof -
  obtain s where "illicit_connection_score a wallet = Inr s"
    using illicit_connection_score_absent [OF assms]
    by (cases "illicit_connection_score a wallet") auto
  then have summary: "get_wallet_summary nx a wallet = Inl NetworkXError"
    using assms by (simp add: get_wallet_summary_def calculate_suspicion_score_def predecessors_def)
  obtain peel where "detect_peeling_pattern a wallet (out_edges (graph a) wallet) = Inr peel"
    using detect_peeling_pattern_Inr by blast
  moreover have "detect_cyclic_pattern a wallet = Inl NetworkXError"
    using assms detect_cyclic_pattern_cases [of a wallet] by simp
  ultimately have classify: "classify_laundering_pattern a wallet = Inl NetworkXError"
    by (simp add: classify_laundering_pattern_def Let_def)
  have "detect_peeling_chain a wallet min_hops = Inl NetworkXError"
    using assms by (simp add: detect_peeling_chain_def)
  then show ?thesis using summary classify by simp
qed

theorem absent_wallet_raises_witness:
  "\<not> has_node (graph chain6) ''Z''
   \<and> (\<forall>nx. get_wallet_summary nx chain6 ''Z'' = Inl NetworkXError)
   \<and> classify_laundering_pattern chain6 ''Z'' = Inl NetworkXError
   \<and> detect_peeling_chain chain6 ''Z'' 5 = Inl NetworkXError"
proof -
  have z: "\<not> has_node (graph chain6) ''Z''"
    by (simp add: chain6_def load_eval has_node_def nodes_def fromkeys_def)
  show ?thesis
    using z absent_wallet_raises [OF z] by simp
qed

end
